theory Spec2Isabelle
  imports Main "HOL-Library.Word"
begin

unbundle bit_operations_syntax

section \<open>The track writer of rtl66 (midi/trackdata.cpp)\<close>

text \<open>
  The class \<open>track\<close> accumulates the bytes of one MIDI track in a byte container
  (\<open>m_bytes\<close>) on behalf of a \<open>sequence\<close> (pattern). Every member function that
  writes is modelled as a function from the container before the call to the container
  after it; the container is the last argument.
\<close>

subsection \<open>Scalar types\<close>

text \<open>
  \<open>midi::byte\<close> is an unsigned char, \<open>midi::ushort\<close> an unsigned short and
  \<open>midi::ulong\<close> an unsigned long (64 bits on the LP64 targets of the library; the
  variable-length encoder below is kept generic in the width). \<open>midi::pulse\<close> is a
  signed long (\<open>midi::pulse == long\<close>, as \<open>track::fill\<close> remarks); ticks are
  modelled as mathematical integers, so signed overflow of a \<open>long\<close> (undefined
  behaviour in C++) is outside the model. Where the source stores a tick value in an
  \<open>int\<close>, the conversion is written out.
\<close>

type_synonym byte = "8 word"
type_synonym ushort = "16 word"
type_synonym ulong = "64 word"
type_synonym pulse = int

text \<open>
  The C++ operators \<open>/\<close> and \<open>%\<close> on signed integers truncate towards zero. A
  divisor of zero is undefined behaviour in the source; the model of a function that
  divides tests the divisor first and returns \<open>DivisionByZero\<close> for zero.
\<close>

definition c_div :: "int \<Rightarrow> int \<Rightarrow> int" where
  "c_div a b = sgn a * sgn b * (\<bar>a\<bar> div \<bar>b\<bar>)"

definition c_mod :: "int \<Rightarrow> int \<Rightarrow> int" where
  "c_mod a b = a - c_div a b * b"

datatype error = DivisionByZero | SignedOverflow

text \<open>
  The conversion of a \<open>long\<close> to an \<open>int\<close> (32 bits, two's complement): the
  value modulo \<open>2^32\<close>, read as a signed number. \<open>INT_MAX\<close> is the largest
  \<open>int\<close>; incrementing an \<open>int\<close> that holds it is a signed overflow, for which
  the model of a function that does so returns \<open>SignedOverflow\<close>.
\<close>

definition narrow_int :: "int \<Rightarrow> int" where
  "narrow_int v = sint (word_of_int v :: 32 word)"

definition INT_MAX :: int where
  "INT_MAX = 2147483647"

subsection \<open>The byte container\<close>

definition put :: "byte \<Rightarrow> byte list \<Rightarrow> byte list" where
  "put b bytes = bytes @ [b]"

definition clear :: "byte list \<Rightarrow> byte list" where
  "clear bytes = []"

subsection \<open>Status bytes and meta types\<close>

text \<open>
  The values are the ones the comments of trackdata.cpp give beside each use
  (\<open>0xFF meta marker\<close>, \<open>0x00, 2 bytes long\<close>, \<open>0x03, len bytes long\<close>, the
  \<open>0xFF 0x7F\<close> of a SeqSpec, the status values in \<open>add_event\<close>) and, for the
  end-of-track type \<open>0x2F\<close>, the track format.
\<close>

definition EVENT_MIDI_META :: byte where "EVENT_MIDI_META = 0xFF"
definition EVENT_MIDI_SYSEX :: byte where "EVENT_MIDI_SYSEX = 0xF0"
definition EVENT_META_SEQ_NUMBER :: byte where "EVENT_META_SEQ_NUMBER = 0x00"
definition EVENT_META_TRACK_NAME :: byte where "EVENT_META_TRACK_NAME = 0x03"
definition EVENT_META_END_OF_TRACK :: byte where "EVENT_META_END_OF_TRACK = 0x2F"
definition EVENT_META_SEQSPEC :: byte where "EVENT_META_SEQSPEC = 0x7F"

definition EVENT_NOTE_OFF :: byte where "EVENT_NOTE_OFF = 0x80"
definition EVENT_NOTE_ON :: byte where "EVENT_NOTE_ON = 0x90"
definition EVENT_AFTERTOUCH :: byte where "EVENT_AFTERTOUCH = 0xA0"
definition EVENT_CONTROL_CHANGE :: byte where "EVENT_CONTROL_CHANGE = 0xB0"
definition EVENT_PROGRAM_CHANGE :: byte where "EVENT_PROGRAM_CHANGE = 0xC0"
definition EVENT_CHANNEL_PRESSURE :: byte where "EVENT_CHANNEL_PRESSURE = 0xD0"
definition EVENT_PITCH_WHEEL :: byte where "EVENT_PITCH_WHEEL = 0xE0"

text \<open>The two trigger tags, as given in the banner of \<open>track::fill\<close>.\<close>

definition c_triggers_ex :: ulong where "c_triggers_ex = 0x24240008"
definition c_trig_transpose :: ulong where "c_trig_transpose = 0x24240020"

text \<open>\<open>null_channel() == 0x80\<close> (banner of \<open>track::add_event\<close>).\<close>

definition null_channel :: byte where "null_channel = 0x80"

definition is_null_channel :: "byte \<Rightarrow> bool" where
  "is_null_channel c = (c = null_channel)"

text \<open>\<open>c_seq_color_none\<close> (sequence.hpp).\<close>

definition c_seq_color_none :: int where "c_seq_color_none = -1"

subsection \<open>Variable-length quantities and fixed-width integers\<close>

text \<open>
  \<open>track::add_varinum\<close>, first loop: \<open>while (v >>= 7) { buffer <<= 8;
  buffer |= ((v & 0x7F) | 0x80); }\<close>.
\<close>

function add_varinum_shift :: "'a::len word \<Rightarrow> 'a word \<Rightarrow> 'a word" where
  "add_varinum_shift v buffer =
     (let v' = drop_bit 7 v
      in if v' \<noteq> 0
         then add_varinum_shift v' (push_bit 8 buffer OR ((v' AND 0x7F) OR 0x80))
         else buffer)"
  by pat_completeness auto
termination
proof (relation "measure (\<lambda>(v, buffer). unat v)")
  show "wf (measure (\<lambda>(v :: 'a word, buffer :: 'a word). unat v))" by simp
next
  fix v buffer x :: "'a word"
  assume x: "x = drop_bit 7 v" and nz: "x \<noteq> 0"
  have "v \<noteq> 0" using x nz by auto
  then have pos: "0 < unat v" by (simp add: unat_gt_0)
  have "unat v div 2 ^ 7 < unat v" using pos by (intro div_less_dividend) simp_all
  moreover have "unat (drop_bit 7 v) = drop_bit 7 (unat v)" by (rule unat_drop_bit_eq)
  moreover have "drop_bit 7 (unat v) = unat v div 2 ^ 7" by (rule drop_bit_eq_div)
  ultimately have "unat x < unat v" using x by simp
  then show "((x, push_bit 8 buffer OR (x AND 0x7F OR 0x80)), (v, buffer))
               \<in> measure (\<lambda>(v, buffer). unat v)"
    by simp
qed

text \<open>
  Second loop: \<open>for (;;) { put(midi::byte(buffer) & 0xFF); if (buffer & 0x80)
  buffer >>= 8; else break; }\<close>.
\<close>

function add_varinum_emit :: "'a::len word \<Rightarrow> byte list \<Rightarrow> byte list" where
  "add_varinum_emit buffer bytes =
     (let bytes' = put (ucast buffer AND 0xFF) bytes
      in if buffer AND 0x80 \<noteq> 0
         then add_varinum_emit (drop_bit 8 buffer) bytes'
         else bytes')"
  by pat_completeness auto
termination
proof (relation "measure (\<lambda>(buffer, bytes). unat buffer)")
  show "wf (measure (\<lambda>(buffer :: 'a word, bytes :: byte list). unat buffer))" by simp
next
  fix buffer :: "'a word" and bytes bytes' :: "byte list"
  assume "buffer AND 0x80 \<noteq> 0"
  then have "buffer \<noteq> 0" by auto
  then have pos: "0 < unat buffer" by (simp add: unat_gt_0)
  have "unat buffer div 2 ^ 8 < unat buffer" using pos by (intro div_less_dividend) simp_all
  moreover have "unat (drop_bit 8 buffer) = drop_bit 8 (unat buffer)" by (rule unat_drop_bit_eq)
  moreover have "drop_bit 8 (unat buffer) = unat buffer div 2 ^ 8" by (rule drop_bit_eq_div)
  ultimately have "unat (drop_bit 8 buffer) < unat buffer" by simp
  then show "((drop_bit 8 buffer, bytes'), (buffer, bytes))
               \<in> measure (\<lambda>(buffer, bytes). unat buffer)"
    by simp
qed

definition add_varinum :: "'a::len word \<Rightarrow> byte list \<Rightarrow> byte list" where
  "add_varinum v bytes = add_varinum_emit (add_varinum_shift v (v AND 0x7F)) bytes"

definition add_long :: "ulong \<Rightarrow> byte list \<Rightarrow> byte list" where
  "add_long x bytes =
     (let bytes = put (ucast (drop_bit 24 (x AND 0xFF000000))) bytes;
          bytes = put (ucast (drop_bit 16 (x AND 0x00FF0000))) bytes;
          bytes = put (ucast (drop_bit 8 (x AND 0x0000FF00))) bytes
      in put (ucast (x AND 0x000000FF)) bytes)"

definition add_short :: "ushort \<Rightarrow> byte list \<Rightarrow> byte list" where
  "add_short x bytes =
     (let bytes = put (ucast (drop_bit 8 (x AND 0xFF00))) bytes
      in put (ucast (x AND 0x00FF)) bytes)"

definition add_byte :: "byte \<Rightarrow> byte list \<Rightarrow> byte list" where
  "add_byte b bytes = put b bytes"

definition put_meta :: "byte \<Rightarrow> int \<Rightarrow> pulse \<Rightarrow> byte list \<Rightarrow> byte list" where
  "put_meta metavalue datalen deltatime bytes =
     (let bytes = add_varinum (word_of_int deltatime :: ulong) bytes;
          bytes = put EVENT_MIDI_META bytes;
          bytes = put metavalue bytes
      in add_varinum (word_of_int datalen :: ulong) bytes)"

definition put_seqspec :: "ulong \<Rightarrow> int \<Rightarrow> byte list \<Rightarrow> byte list" where
  "put_seqspec spec datalen bytes =
     (let datalen = datalen + 4;
          bytes = put_meta EVENT_META_SEQSPEC datalen 0 bytes
      in add_long spec bytes)"


declare add_varinum_shift.simps [simp del] add_varinum_emit.simps [simp del]

subsection \<open>Events\<close>

text \<open>
  The class \<open>event\<close> (midi/event.hpp) is used by the writer through its accessors
  only; the record holds what they return: \<open>timestamp()\<close>, \<open>get_status()\<close>,
  \<open>channel()\<close> (for a meta event the meta type, as \<open>add_ex_event\<close> remarks),
  \<open>data(0)\<close>, \<open>data(1)\<close> and \<open>get_message()\<close>, whose length is
  \<open>sysex_size()\<close>.
\<close>

record event =
  timestamp :: pulse
  status :: byte
  channel :: byte
  data0 :: byte
  data1 :: byte
  message :: "byte list"

definition get_status :: "event \<Rightarrow> byte" where
  "get_status e = status e"

definition sysex_size :: "event \<Rightarrow> int" where
  "sysex_size e = int (length (message e))"

text \<open>
  Modelled from the spec: \<open>event::mask_status\<close> is declared in midi/event.hpp, which
  is not among the files; \<open>add_event\<close> annotates its use with the mask \<open>0xF0\<close>,
  which removes the channel nibble of a status byte.
\<close>

definition mask_status :: "byte \<Rightarrow> byte" where
  "mask_status m = m AND 0xF0"

text \<open>
  Modelled from the spec: \<open>event::is_meta\<close> (midi/event.hpp, not among the files);
  a meta event is one with the \<open>0xFF\<close> prefix as its status.
\<close>

definition is_meta :: "event \<Rightarrow> bool" where
  "is_meta e = (status e = EVENT_MIDI_META)"

text \<open>
  Modelled from the spec: \<open>event::is_ex_data\<close> (midi/event.hpp, not among the files);
  it holds of the meta (\<open>0xFF\<close>) and system-exclusive (\<open>0xF0\<close>) families, the
  events that \<open>add_event\<close> passes on to \<open>add_ex_event\<close>.
\<close>

definition is_ex_data :: "event \<Rightarrow> bool" where
  "is_ex_data e = (status e = EVENT_MIDI_META \<or> status e = EVENT_MIDI_SYSEX)"

text \<open>
  Modelled from the spec: \<open>event::has_channel\<close> (midi/event.hpp, not among the files);
  the channel-voice family is note-off to pitch-wheel, the statuses from \<open>0x80\<close> up
  to, not including, \<open>0xF0\<close>.
\<close>

definition has_channel :: "event \<Rightarrow> bool" where
  "has_channel e = (EVENT_NOTE_OFF \<le> status e \<and> status e < EVENT_MIDI_SYSEX)"

text \<open>
  Modelled from the spec: \<open>event::is_note\<close> (midi/event.hpp, not among the files)
  classifies the status; \<open>song_fill_seq_event\<close> remarks that it includes aftertouch,
  so it holds of note-off, note-on and aftertouch.
\<close>

definition is_note :: "event \<Rightarrow> bool" where
  "is_note e = (mask_status (status e) = EVENT_NOTE_OFF
                \<or> mask_status (status e) = EVENT_NOTE_ON
                \<or> mask_status (status e) = EVENT_AFTERTOUCH)"

text \<open>
  Modelled from the spec: \<open>event::is_note_on\<close> (midi/event.hpp, not among the files)
  classifies the status as note-on.
\<close>

definition is_note_on :: "event \<Rightarrow> bool" where
  "is_note_on e = (mask_status (status e) = EVENT_NOTE_ON)"

text \<open>
  Modelled from the spec: \<open>event::is_note_off\<close> (midi/event.hpp, not among the files)
  classifies the status as note-off.
\<close>

definition is_note_off :: "event \<Rightarrow> bool" where
  "is_note_off e = (mask_status (status e) = EVENT_NOTE_OFF)"

text \<open>
  Modelled from the spec: \<open>event::get_note\<close> (midi/event.hpp, not among the files);
  the note number of a note event is its first data byte.
\<close>

definition get_note :: "event \<Rightarrow> byte" where
  "get_note e = data0 e"

text \<open>
  Modelled from the spec: \<open>event::transpose_note\<close> (midi/event.hpp, not among the
  files) shifts the note number by the given number of semitones and clamps the result to
  \<open>[0, 127]\<close>.
\<close>

definition transpose_note :: "event \<Rightarrow> int \<Rightarrow> event" where
  "transpose_note e tn = e\<lparr>data0 := word_of_int (max 0 (min 127 (uint (data0 e) + tn)))\<rparr>"

text \<open>
  Modelled from the spec: \<open>eventlist::sort\<close> is declared in midi/eventlist.hpp, its
  body is not among the files; the export copies the event list and stable-sorts it by
  timestamp.
\<close>

definition eventlist_sort :: "event list \<Rightarrow> event list" where
  "eventlist_sort evl = sort_key timestamp evl"

subsection \<open>Triggers\<close>

text \<open>
  The class \<open>trigger\<close> (play/triggers.hpp) through its accessors \<open>tick_start()\<close>,
  \<open>tick_end()\<close>, \<open>offset()\<close> and \<open>transpose()\<close>.
\<close>

record trigger =
  tick_start :: pulse
  tick_end :: pulse
  offset :: pulse
  transpose_trig :: int

text \<open>
  Modelled from the spec: \<open>trigger::transposed\<close> (play/triggers.hpp, not among the
  files); a trigger carries a transposition when its semitone shift is not zero.
\<close>

definition transposed :: "trigger \<Rightarrow> bool" where
  "transposed t = (transpose_trig t \<noteq> 0)"

text \<open>
  Modelled from the spec: \<open>trigger::length\<close> (play/triggers.hpp, not among the files);
  \<open>tick_end\<close> is inclusive, so the length is one more than the difference of the two
  ticks (the banner of \<open>song_fill_track\<close>: \<open>tick_end()\<close> is off by 1 from a length).
\<close>

definition trigger_length :: "trigger \<Rightarrow> pulse" where
  "trigger_length t = tick_end t - tick_start t + 1"

text \<open>
  Modelled from the spec: \<open>triggers::any_transposed\<close> (play/triggers.hpp, not among
  the files) tells whether any trigger of the list carries a non-zero transpose.
\<close>

definition any_transposed :: "trigger list \<Rightarrow> bool" where
  "any_transposed trigs = list_ex transposed trigs"

text \<open>
  Modelled from the spec: \<open>trigger::datasize\<close> and \<open>triggers::datasize\<close>
  (play/triggers.hpp, not among the files). The banner of \<open>track::fill\<close> gives the
  data of a trigger as three long integers, and one more byte, the transposition, under
  \<open>c_trig_transpose\<close>; the size of the list is the number of triggers times that.
\<close>

definition trigger_datasize :: "ulong \<Rightarrow> int" where
  "trigger_datasize seqspec = (if seqspec = c_trig_transpose then 3 * 4 + 1 else 3 * 4)"

definition triggers_datasize :: "trigger list \<Rightarrow> ulong \<Rightarrow> int" where
  "triggers_datasize trigs seqspec = int (length trigs) * trigger_datasize seqspec"

subsection \<open>What the writer takes from elsewhere\<close>

text \<open>
  The writer uses declarations whose values or bodies are in headers that are not among
  the files, and about which nothing more is known than their use here: the SeqSpec tags
  other than the two trigger tags, the default key and scale, \<open>seq::valid\<close>,
  \<open>trigger::transpose_byte\<close>, the function \<open>measures_to_ticks\<close> of the
  calculations module, and the compile-time feature \<open>SEQ66_SEQUENCE_EDIT_MODE\<close> with
  its tag. They are parameters of the model, and every general theorem below holds for
  all their values. (The blocks under \<open>USE_FILL_TIME_SIG_AND_TEMPO\<close> and
  \<open>SEQ66_USE_FILL_TIME_SIG_AND_TEMPO\<close> refer to a performer \<open>p\<close> that is not in
  scope, so these macros are undefined and the blocks are left out.)
\<close>

record extern =
  c_midibus :: ulong
  c_timesig :: ulong
  c_midichannel :: ulong
  c_musickey :: ulong
  c_musicscale :: ulong
  c_backsequence :: ulong
  c_transpose :: ulong
  c_seq_color :: ulong
  c_seq_edit_mode :: ulong
  c_seq_loopcount :: ulong
  c_key_of_C :: byte
  c_scales_off :: byte
  seq_valid :: "int \<Rightarrow> bool"
  transpose_byte :: "trigger \<Rightarrow> byte"
  calc_measures_to_ticks :: "int \<Rightarrow> int \<Rightarrow> int \<Rightarrow> int \<Rightarrow> pulse"
  SEQ66_SEQUENCE_EDIT_MODE :: bool

text \<open>The two configuration flags read through \<open>rc()\<close> and \<open>usr()\<close>.\<close>

record settings =
  save_old_triggers :: bool
  global_seq_feature :: bool

subsection \<open>Sequences (play/sequence.hpp)\<close>

datatype editmode = editmode_note | editmode_drum

record sequence =
  m_events :: "event list"
  m_triggers :: "trigger list"
  m_midi_channel :: byte
  m_free_channel :: bool
  m_nominal_bus :: byte
  m_song_mute :: bool
  m_transposable :: bool
  m_loop_count_max :: int
  m_name :: string
  m_ppqn :: ushort
  m_seq_color :: int
  m_seq_edit_mode :: editmode
  m_length :: pulse
  m_last_tick :: pulse
  m_time_beats_per_measure :: ushort
  m_time_beat_width :: ushort
  m_musical_key :: byte
  m_musical_scale :: byte
  m_background_sequence :: "16 word"

definition get_song_mute :: "sequence \<Rightarrow> bool" where
  "get_song_mute s = m_song_mute s"

definition trigger_count :: "sequence \<Rightarrow> int" where
  "trigger_count s = int (length (m_triggers s))"

definition is_exportable :: "sequence \<Rightarrow> bool" where
  "is_exportable s = (\<not> get_song_mute s \<and> trigger_count s > 0)"

definition any_trigger_transposed :: "sequence \<Rightarrow> bool" where
  "any_trigger_transposed s = any_transposed (m_triggers s)"

definition get_beats_per_bar :: "sequence \<Rightarrow> int" where
  "get_beats_per_bar s = uint (m_time_beats_per_measure s)"

definition get_beat_width :: "sequence \<Rightarrow> int" where
  "get_beat_width s = uint (m_time_beat_width s)"

definition measures_to_ticks :: "extern \<Rightarrow> sequence \<Rightarrow> int \<Rightarrow> pulse" where
  "measures_to_ticks x s meas =
     calc_measures_to_ticks x (uint (m_time_beats_per_measure s)) (uint (m_ppqn s))
       (uint (m_time_beat_width s)) meas"

definition get_length :: "sequence \<Rightarrow> pulse" where
  "get_length s = m_length s"

definition mod_last_tick :: "sequence \<Rightarrow> pulse" where
  "mod_last_tick s = (if m_length s > 1 then c_mod (m_last_tick s) (m_length s) else m_last_tick s)"

definition seq_midi_channel :: "sequence \<Rightarrow> byte" where
  "seq_midi_channel s = m_midi_channel s"

definition free_channel :: "sequence \<Rightarrow> bool" where
  "free_channel s = m_free_channel s"

definition seq_midi_bus :: "sequence \<Rightarrow> byte" where
  "seq_midi_bus s = m_nominal_bus s"

definition color :: "sequence \<Rightarrow> int" where
  "color s = m_seq_color s"

definition edit_mode_byte :: "sequence \<Rightarrow> byte" where
  "edit_mode_byte s = (case m_seq_edit_mode s of editmode_note \<Rightarrow> 0 | editmode_drum \<Rightarrow> 1)"

definition loop_count_max :: "sequence \<Rightarrow> int" where
  "loop_count_max s = m_loop_count_max s"

definition musical_key :: "sequence \<Rightarrow> byte" where
  "musical_key s = m_musical_key s"

definition musical_scale :: "sequence \<Rightarrow> byte" where
  "musical_scale s = m_musical_scale s"

definition background_sequence :: "sequence \<Rightarrow> int" where
  "background_sequence s = sint (m_background_sequence s)"

definition transposable :: "sequence \<Rightarrow> bool" where
  "transposable s = m_transposable s"


subsection \<open>Writing events\<close>

definition add_ex_event :: "event \<Rightarrow> pulse \<Rightarrow> byte list \<Rightarrow> byte list" where
  "add_ex_event e deltatime bytes =
     (let bytes = add_varinum (word_of_int deltatime :: ulong) bytes;
          bytes = put (get_status e) bytes;
          bytes = (if is_meta e then put (channel e) bytes else bytes);
          count = sysex_size e;
          bytes = add_varinum (word_of_int count :: ulong) bytes
      in foldl (\<lambda>bytes m. put m bytes) bytes (message e))"

definition add_event :: "sequence \<Rightarrow> event \<Rightarrow> pulse \<Rightarrow> byte list \<Rightarrow> byte list" where
  "add_event s e deltatime bytes =
     (if is_ex_data e then add_ex_event e deltatime bytes
      else
        let d0 = data0 e;
            d1 = data1 e;
            chan = seq_midi_channel s;
            st = get_status e;
            bytes = add_varinum (word_of_int deltatime :: ulong) bytes;
            bytes = (if free_channel s \<or> is_null_channel chan
                     then put (st OR channel e) bytes
                     else put (st OR chan) bytes)
        in if has_channel e
           then (if mask_status st = EVENT_NOTE_OFF \<or> mask_status st = EVENT_NOTE_ON
                    \<or> mask_status st = EVENT_AFTERTOUCH
                    \<or> mask_status st = EVENT_CONTROL_CHANGE
                    \<or> mask_status st = EVENT_PITCH_WHEEL
                 then put d1 (put d0 bytes)
                 else if mask_status st = EVENT_PROGRAM_CHANGE
                    \<or> mask_status st = EVENT_CHANNEL_PRESSURE
                 then put d0 bytes
                 else bytes)
           else bytes)"

subsection \<open>Track meta events\<close>

definition fill_seq_number :: "int \<Rightarrow> byte list \<Rightarrow> byte list" where
  "fill_seq_number seq bytes =
     (let bytes = put_meta EVENT_META_SEQ_NUMBER 2 0 bytes
      in add_short (word_of_int seq) bytes)"

definition fill_seq_name :: "string \<Rightarrow> byte list \<Rightarrow> byte list" where
  "fill_seq_name name bytes =
     (let len = int (length name);
          bytes = put_meta EVENT_META_TRACK_NAME len 0 bytes
      in foldl (\<lambda>bytes c. put (of_char c) bytes) bytes name)"

definition fill_meta_track_end :: "pulse \<Rightarrow> byte list \<Rightarrow> byte list" where
  "fill_meta_track_end deltatime bytes = put_meta EVENT_META_END_OF_TRACK 0 deltatime bytes"

subsection \<open>The SeqSpec section: \<open>track::fill_proprietary\<close>\<close>

definition fill_proprietary :: "extern \<Rightarrow> settings \<Rightarrow> sequence \<Rightarrow> byte list \<Rightarrow> byte list" where
  "fill_proprietary x cfg s bytes =
     (let bytes = put_seqspec (c_midibus x) 1 bytes;
          bytes = put (seq_midi_bus s) bytes;
          bytes = put_seqspec (c_timesig x) 2 bytes;
          bytes = put (word_of_int (get_beats_per_bar s)) bytes;
          bytes = put (word_of_int (get_beat_width s)) bytes;
          bytes = put_seqspec (c_midichannel x) 1 bytes;
          bytes = put (seq_midi_channel s) bytes;
          bytes =
            (if \<not> global_seq_feature cfg
             then
               let bytes = (if musical_key s \<noteq> c_key_of_C x
                            then put (musical_key s) (put_seqspec (c_musickey x) 1 bytes)
                            else bytes);
                   bytes = (if musical_scale s \<noteq> c_scales_off x
                            then put (musical_scale s) (put_seqspec (c_musicscale x) 1 bytes)
                            else bytes)
               in if seq_valid x (background_sequence s)
                  then add_long (word_of_int (background_sequence s))
                         (put_seqspec (c_backsequence x) 4 bytes)
                  else bytes
             else bytes);
          transpose = transposable s;
          bytes = put_seqspec (c_transpose x) 1 bytes;
          bytes = put (of_bool transpose) bytes;
          bytes = (if color s \<noteq> c_seq_color_none
                   then put (word_of_int (color s)) (put_seqspec (c_seq_color x) 1 bytes)
                   else bytes);
          bytes = (if SEQ66_SEQUENCE_EDIT_MODE x \<and> m_seq_edit_mode s \<noteq> editmode_note
                   then put (edit_mode_byte s) (put_seqspec (c_seq_edit_mode x) 1 bytes)
                   else bytes)
      in if loop_count_max s > 0
         then add_short (word_of_int (loop_count_max s)) (put_seqspec (c_seq_loopcount x) 2 bytes)
         else bytes)"

subsection \<open>Song export: \<open>track::song_fill_seq_event\<close>\<close>

text \<open>
  The state of the replay of one trigger: the open-count table \<open>note_is_used\<close> (an
  array indexed by the note byte; the source's array has \<open>c_notes_count\<close> entries and
  is indexed by a data byte, the model's table is total), the running
  \<open>prev_timestamp\<close> and the byte container. The counts are \<open>int\<close>s in the
  source and mathematical integers here: a count is never lowered below zero, and it
  leaves the range of an \<open>int\<close> only after \<open>2^31\<close> note-ons of one note, which,
  like an index beyond the array, is undefined behaviour outside the model.
\<close>

record replay =
  note_is_used :: "byte \<Rightarrow> int"
  prev_timestamp :: pulse
  m_bytes :: "byte list"

text \<open>
  The note bookkeeping of the loop body (the outer \<open>if\<close> of the body): \<open>None\<close>
  stands for \<open>continue\<close>, otherwise the event (transposed if the trigger says so),
  its timestamp (clipped for a note-off) and the table go on to the rest of the body.
\<close>

definition song_fill_seq_event_note ::
  "trigger \<Rightarrow> pulse \<Rightarrow> event \<Rightarrow> (byte \<Rightarrow> int) \<Rightarrow> (event \<times> pulse \<times> (byte \<Rightarrow> int)) option" where
  "song_fill_seq_event_note trig ts e used =
     (if ts \<ge> tick_start trig
      then
        if is_note e
        then
          let note = get_note e;
              e = (if transposed trig then transpose_note e (transpose_trig trig) else e)
          in if is_note_on e
             then (if ts \<le> tick_end trig
                   then Some (e, ts, used(note := used note + 1))
                   else None)
             else if is_note_off e
             then (if used note > 0
                   then Some (e, if ts > tick_end trig then tick_end trig else ts,
                              used(note := used note - 1))
                   else None)
             else Some (e, ts, used)
        else Some (e, ts, used)
      else None)"

text \<open>One iteration of the inner loop, for the event \<open>e\<close> of the pattern.\<close>

definition song_fill_seq_event_body ::
  "sequence \<Rightarrow> trigger \<Rightarrow> pulse \<Rightarrow> replay \<Rightarrow> event \<Rightarrow> replay" where
  "song_fill_seq_event_body s trig time_offset st e =
     (let ts = timestamp e + time_offset
      in case song_fill_seq_event_note trig ts e (note_is_used st) of
           None \<Rightarrow> st
         | Some (e, ts, used) \<Rightarrow>
             if ts \<ge> tick_end trig \<and> \<not> is_note e
             then st\<lparr>note_is_used := used\<rparr>
             else
               let delta_time = ts - prev_timestamp st
               in \<lparr>note_is_used = used, prev_timestamp = ts,
                   m_bytes = add_event s e delta_time (m_bytes st)\<rparr>)"

text \<open>One pass over the events of the pattern (the inner \<open>for\<close>).\<close>

definition song_fill_seq_event_pass ::
  "sequence \<Rightarrow> trigger \<Rightarrow> pulse \<Rightarrow> replay \<Rightarrow> replay" where
  "song_fill_seq_event_pass s trig time_offset st =
     foldl (song_fill_seq_event_body s trig time_offset) st (m_events s)"

text \<open>
  The outer loop: \<open>for (int p = 0; p <= times_played; ++p, time_offset += len)\<close>.
  Both \<open>p\<close> and \<open>times_played\<close> are of type \<open>int\<close>; after the pass with
  \<open>p = INT_MAX\<close> (reached only when \<open>times_played\<close> is \<open>INT_MAX\<close>) the
  increment \<open>++p\<close> overflows.
\<close>

function song_fill_seq_event_passes ::
  "sequence \<Rightarrow> trigger \<Rightarrow> pulse \<Rightarrow> int \<Rightarrow> int \<Rightarrow> pulse \<Rightarrow> replay \<Rightarrow> error + replay" where
  "song_fill_seq_event_passes s trig len times_played p time_offset st =
     (if p \<le> times_played
      then
        let st = song_fill_seq_event_pass s trig time_offset st
        in if p = INT_MAX then Inl SignedOverflow
           else song_fill_seq_event_passes s trig len times_played (p + 1) (time_offset + len) st
      else Inr st)"
  by pat_completeness auto
termination
  by (relation "measure (\<lambda>(s, trig, len, times_played, p, time_offset, st).
                  nat (times_played + 1 - p))") simp_all

declare song_fill_seq_event_passes.simps [simp del]

text \<open>
  The function itself. Both \<open>%\<close> and the \<open>/\<close> have the pattern length as their
  right operand, with no test before them; for a length of zero the model returns
  \<open>DivisionByZero\<close>, where the program has left defined behaviour. The number of
  passes, \<open>int times_played = 1 + (trig.length() - 1) / len\<close>, is computed on
  \<open>long\<close> values and stored in an \<open>int\<close>.
\<close>

definition song_fill_seq_event ::
  "sequence \<Rightarrow> trigger \<Rightarrow> pulse \<Rightarrow> byte list \<Rightarrow> error + (pulse \<times> byte list)" where
  "song_fill_seq_event s trig prev bytes =
     (let len = get_length s
      in if len = 0 then Inl DivisionByZero
         else
           let trig_offset = c_mod (offset trig) len;
               start_offset = c_mod (tick_start trig) len;
               time_offset = tick_start trig + trig_offset - start_offset;
               times_played = narrow_int (1 + c_div (trigger_length trig - 1) len);
               time_offset = (if trig_offset > start_offset then time_offset - len
                              else time_offset)
           in case song_fill_seq_event_passes s trig len times_played 0 time_offset
                     \<lparr>note_is_used = (\<lambda>i. 0), prev_timestamp = prev, m_bytes = bytes\<rparr> of
                Inl err \<Rightarrow> Inl err
              | Inr st \<Rightarrow> Inr (prev_timestamp st, m_bytes st))"

subsection \<open>Song export: \<open>track::song_fill_seq_trigger\<close> and \<open>track::song_fill_track\<close>\<close>

definition song_fill_seq_trigger ::
  "extern \<Rightarrow> settings \<Rightarrow> sequence \<Rightarrow> trigger \<Rightarrow> pulse \<Rightarrow> pulse \<Rightarrow> byte list \<Rightarrow> byte list" where
  "song_fill_seq_trigger x cfg s trig len prev bytes =
     (let bytes = put_seqspec c_triggers_ex (trigger_datasize c_triggers_ex) bytes;
          bytes = add_long 0 bytes;
          bytes = add_long (word_of_int (tick_end trig)) bytes;
          bytes = add_long 0 bytes;
          bytes = fill_proprietary x cfg s bytes
      in fill_meta_track_end (len - prev) bytes)"

text \<open>
  The loop over the triggers: \<open>for (auto & t : trigs) last_ts =
  song_fill_seq_event(t, last_ts);\<close>.
\<close>

fun song_fill_track_events ::
  "sequence \<Rightarrow> trigger list \<Rightarrow> pulse \<Rightarrow> byte list \<Rightarrow> error + (pulse \<times> byte list)" where
  "song_fill_track_events s [] last_ts bytes = Inr (last_ts, bytes)"
| "song_fill_track_events s (t # trigs) last_ts bytes =
     (case song_fill_seq_event s t last_ts bytes of
        Inl err \<Rightarrow> Inl err
      | Inr (last_ts, bytes) \<Rightarrow> song_fill_track_events s trigs last_ts bytes)"

text \<open>
  The end tick of the exported track: the end of the last trigger, moved to the last tick
  of its measure (the block under \<open>if (measticks > 0)\<close>).
\<close>

definition song_fill_track_seqend :: "pulse \<Rightarrow> pulse \<Rightarrow> pulse" where
  "song_fill_track_seqend seqend measticks =
     (if measticks > 0
      then
        let remainder = c_mod seqend measticks
        in if remainder \<noteq> measticks - 1
           then seqend + (measticks - remainder - 1)
           else seqend
      else seqend)"

definition song_fill_track ::
  "extern \<Rightarrow> settings \<Rightarrow> sequence \<Rightarrow> int \<Rightarrow> bool \<Rightarrow> byte list \<Rightarrow> error + (bool \<times> byte list)" where
  "song_fill_track x cfg s track standalone bytes =
     (let result = is_exportable s
      in if result
         then
           let bytes = clear bytes;
               bytes = (if standalone
                        then fill_seq_name (m_name s) (fill_seq_number track bytes)
                        else bytes);
               trigs = m_triggers s
           in case song_fill_track_events s trigs 0 bytes of
                Inl err \<Rightarrow> Inl err
              | Inr (last_ts, bytes) \<Rightarrow>
                  let ender = last trigs;
                      seqend = tick_end ender;
                      measticks = measures_to_ticks x s 1;
                      seqend = song_fill_track_seqend seqend measticks
                  in Inr (result, song_fill_seq_trigger x cfg s ender seqend last_ts bytes)
         else Inr (result, bytes))"

subsection \<open>Regular export: \<open>track::fill\<close>\<close>

text \<open>
  The loop over the sorted events. The first component of the result tells whether the
  loop was left through \<open>break\<close>, after \<open>errprint("track::fill(): Bad delta-time,
  aborting")\<close>.
\<close>

fun fill_events ::
  "sequence \<Rightarrow> event list \<Rightarrow> pulse \<Rightarrow> byte list \<Rightarrow> bool \<times> pulse \<times> byte list" where
  "fill_events s [] prevtimestamp bytes = (False, prevtimestamp, bytes)"
| "fill_events s (e # evl) prevtimestamp bytes =
     (let ts = timestamp e;
          deltatime = ts - prevtimestamp
      in if deltatime < 0
         then (True, prevtimestamp, bytes)
         else fill_events s evl ts (add_event s e deltatime bytes))"

text \<open>The loop over the trigger list.\<close>

fun fill_triggers :: "extern \<Rightarrow> bool \<Rightarrow> trigger list \<Rightarrow> byte list \<Rightarrow> byte list" where
  "fill_triggers x transtriggers [] bytes = bytes"
| "fill_triggers x transtriggers (t # triggerlist) bytes =
     (let bytes = add_long (word_of_int (tick_start t)) bytes;
          bytes = add_long (word_of_int (tick_end t)) bytes;
          bytes = add_long (word_of_int (offset t)) bytes;
          bytes = (if transtriggers then add_byte (transpose_byte x t) bytes else bytes)
      in fill_triggers x transtriggers triggerlist bytes)"

definition fill ::
  "extern \<Rightarrow> settings \<Rightarrow> sequence \<Rightarrow> int \<Rightarrow> bool \<Rightarrow> byte list \<Rightarrow> byte list" where
  "fill x cfg s track doseqspec bytes =
     (let evl = eventlist_sort (m_events s);
          bytes = (if doseqspec then fill_seq_number track bytes else bytes);
          bytes = fill_seq_name (m_name s) bytes;
          (aborted, prevtimestamp, bytes) = fill_events s evl 0 bytes;
          bytes =
            (if doseqspec
             then
               let triggerlist = m_triggers s;
                   transtriggers = \<not> save_old_triggers cfg;
                   transtriggers = (if transtriggers then any_trigger_transposed s
                                    else transtriggers);
                   bytes = (if transtriggers
                            then put_seqspec c_trig_transpose
                                   (triggers_datasize (m_triggers s) c_trig_transpose) bytes
                            else put_seqspec c_triggers_ex
                                   (triggers_datasize (m_triggers s) c_triggers_ex) bytes);
                   bytes = fill_triggers x transtriggers triggerlist bytes
               in fill_proprietary x cfg s bytes
             else bytes);
          len = get_length s;
          deltatime = (if len < prevtimestamp then 0 else len - prevtimestamp)
      in fill_meta_track_end deltatime bytes)"


subsection \<open>Reading a variable-length quantity\<close>

text \<open>
  Modelled from the spec: the decoder \<open>decode_varint\<close> is not among the files. It
  reads 7 data bits per byte, most significant group first, while bit 7 (the continuation
  flag) is set, and fails when more than 4 continuation bytes are seen or the bytes end
  before the last group; it returns the value and the bytes that follow.
\<close>

fun decode_varint_from :: "nat \<Rightarrow> nat \<Rightarrow> byte list \<Rightarrow> (nat \<times> byte list) option" where
  "decode_varint_from count val [] = None"
| "decode_varint_from count val (b # bs) =
     (let val = val * 128 + unat (b AND 0x7F)
      in if bit b 7
         then (if 4 \<le> count then None else decode_varint_from (Suc count) val bs)
         else Some (val, bs))"

definition decode_varint :: "byte list \<Rightarrow> (nat \<times> byte list) option" where
  "decode_varint bytes = decode_varint_from 0 0 bytes"

text \<open>
  The byte that \<open>add_varinum\<close> builds for a group that is not the last one: the 7 bits
  of \<open>v\<close> from bit \<open>n\<close> on, with the continuation flag.
\<close>

definition grp :: "nat \<Rightarrow> 'a::len word \<Rightarrow> 'a word" where
  "grp n v = (drop_bit n v AND 0x7F) OR 0x80"

subsection \<open>Concrete inputs\<close>

text \<open>
  An instance of the parameters (the tags, defaults and helper functions as Seq66 files
  have them), the settings of a fresh configuration, and a pattern of 192 ticks with two
  notes and one trigger. The closed theorems below run the model on them.
\<close>

definition extern_example :: extern where
  "extern_example =
     \<lparr>c_midibus = 0x24240001, c_timesig = 0x24240006, c_midichannel = 0x24240002,
      c_musickey = 0x24240011, c_musicscale = 0x24240012, c_backsequence = 0x24240013,
      c_transpose = 0x24240014, c_seq_color = 0x2424001B, c_seq_edit_mode = 0x2424001C,
      c_seq_loopcount = 0x2424001D, c_key_of_C = 0, c_scales_off = 0,
      seq_valid = (\<lambda>n. 0 \<le> n \<and> n < 1024),
      transpose_byte = (\<lambda>t. word_of_int (transpose_trig t + 0x40)),
      calc_measures_to_ticks =
        (\<lambda>bpb ppqn bw meas. if bw > 0 then c_div (4 * ppqn * meas * bpb) bw else 0),
      SEQ66_SEQUENCE_EDIT_MODE = False\<rparr>"

definition settings_example :: settings where
  "settings_example = \<lparr>save_old_triggers = False, global_seq_feature = False\<rparr>"

definition trigger_example :: trigger where
  "trigger_example = \<lparr>tick_start = 100, tick_end = 300, offset = 50, transpose_trig = 0\<rparr>"

definition note_event :: "pulse \<Rightarrow> byte \<Rightarrow> byte \<Rightarrow> byte \<Rightarrow> event" where
  "note_event ts st n vel =
     \<lparr>timestamp = ts, status = st, channel = 0, data0 = n, data1 = vel, message = []\<rparr>"

definition pattern_example :: sequence where
  "pattern_example =
     \<lparr>m_events = [note_event 0 0x90 60 100, note_event 48 0x80 60 0,
                  note_event 96 0x90 64 100, note_event 144 0x80 64 0],
      m_triggers = [trigger_example],
      m_midi_channel = 0, m_free_channel = False, m_nominal_bus = 0, m_song_mute = False,
      m_transposable = True, m_loop_count_max = 0, m_name = ''A'', m_ppqn = 48,
      m_seq_color = -1, m_seq_edit_mode = editmode_note, m_length = 192, m_last_tick = 0,
      m_time_beats_per_measure = 4, m_time_beat_width = 4, m_musical_key = 0,
      m_musical_scale = 0, m_background_sequence = -1\<rparr>"

text \<open>
  The pattern with no events and a second, transposed trigger; and the pattern with an
  event before tick 0, whose first delta-time is negative.
\<close>

definition pattern_transposed :: sequence where
  "pattern_transposed =
     pattern_example\<lparr>m_events := [],
       m_triggers := [trigger_example,
                      \<lparr>tick_start = 400, tick_end = 591, offset = 16, transpose_trig = 3\<rparr>]\<rparr>"

definition pattern_negative :: sequence where
  "pattern_negative =
     pattern_example\<lparr>m_events := [note_event 10 0x80 60 0, note_event (- 1) 0x90 60 100]\<rparr>"


definition replay_start :: replay where
  "replay_start = \<lparr>note_is_used = (\<lambda>i. 0), prev_timestamp = 0, m_bytes = []\<rparr>"


text \<open>
  A pattern of length 1 and a trigger of \<open>2^31\<close> ticks, for which the number of
  passes does not fit an \<open>int\<close>.
\<close>

definition pattern_short :: sequence where
  "pattern_short = pattern_example\<lparr>m_length := 1\<rparr>"

definition trigger_long :: trigger where
  "trigger_long = \<lparr>tick_start = 0, tick_end = 2147483647, offset = 0, transpose_trig = 0\<rparr>"

text \<open>The pattern whose trigger ends on the last tick of a measure.\<close>

definition pattern_end383 :: sequence where
  "pattern_end383 = pattern_example\<lparr>m_triggers := [trigger_example\<lparr>tick_end := 383\<rparr>]\<rparr>"

text \<open>
  A build with the edit-mode feature compiled in, and a pattern in drum mode.
\<close>

definition extern_edit_mode :: extern where
  "extern_edit_mode = extern_example\<lparr>SEQ66_SEQUENCE_EDIT_MODE := True\<rparr>"

definition pattern_drum :: sequence where
  "pattern_drum = pattern_example\<lparr>m_seq_edit_mode := editmode_drum\<rparr>"

section \<open>The variable-length encoder\<close>

subsection \<open>Bits of the constants\<close>

lemma bit_x80_int: "bit (0x80 :: int) n \<longleftrightarrow> n = 7"
proof -
  have "(0x80 :: int) = 2 ^ 7" by simp
  moreover have "bit ((2 :: int) ^ 7) n \<longleftrightarrow> n = 7"
    by (simp only: bit_exp_iff) simp
  ultimately show ?thesis by (simp only:)
qed

lemma bit_x7F_int: "bit (0x7F :: int) n \<longleftrightarrow> n < 7"
proof -
  have "(0x7F :: int) = mask 7" by (simp add: mask_eq_exp_minus_1)
  moreover have "bit (mask 7 :: int) n \<longleftrightarrow> n < 7"
    by (simp only: bit_mask_iff) simp
  ultimately show ?thesis by (simp only:)
qed

lemma bit_xFF_int: "bit (0xFF :: int) n \<longleftrightarrow> n < 8"
proof -
  have "(0xFF :: int) = mask 8" by (simp add: mask_eq_exp_minus_1)
  moreover have "bit (mask 8 :: int) n \<longleftrightarrow> n < 8"
    by (simp only: bit_mask_iff) simp
  ultimately show ?thesis by (simp only:)
qed

lemmas bit_consts = bit_x80_int bit_x7F_int bit_xFF_int

lemma ucast_and_FF: "(b :: byte) AND 0xFF = b"
  by (rule bit_eqI) (auto simp: bit_simps bit_consts)

lemma group_flag:
  fixes x :: "'a::len word"
  assumes "8 \<le> LENGTH('a)"
  shows "(push_bit 8 b OR ((x AND 0x7F) OR 0x80)) AND 0x80 \<noteq> 0"
proof -
  have "bit ((push_bit 8 b OR ((x AND 0x7F) OR 0x80)) AND 0x80) 7"
    using assms by (simp add: bit_simps bit_consts)
  then show ?thesis by auto
qed

lemma last_flag:
  fixes x :: "'a::len word"
  shows "(x AND 0x7F) AND 0x80 = 0"
  by (rule bit_eqI) (auto simp: bit_simps bit_consts)

lemma drop_group:
  fixes b x :: "'a::len word"
  assumes "take_bit 24 b = b" "32 \<le> LENGTH('a)"
  shows "drop_bit 8 (push_bit 8 b OR ((x AND 0x7F) OR 0x80)) = b"
proof (rule bit_eqI)
  fix n assume "possible_bit TYPE('a word) n"
  have lt: "bit b n \<Longrightarrow> n < 24"
    using assms(1) by (metis bit_take_bit_iff)
  show "bit (drop_bit 8 (push_bit 8 b OR ((x AND 0x7F) OR 0x80))) n = bit b n"
    using assms(2) lt by (auto simp: bit_simps bit_consts)
qed

lemma ucast_group:
  fixes b x :: "'a::len word"
  shows "(ucast (push_bit 8 b OR y) :: byte) = ucast y"
  by (rule bit_eqI) (auto simp: bit_simps)

subsection \<open>The shifting and the emitting, step by step\<close>

lemma shift_stop: "drop_bit 7 v = 0 \<Longrightarrow> add_varinum_shift v b = b"
  by (subst add_varinum_shift.simps) simp

lemma shift_step:
  "drop_bit 7 v \<noteq> 0 \<Longrightarrow>
   add_varinum_shift v b =
     add_varinum_shift (drop_bit 7 v) (push_bit 8 b OR ((drop_bit 7 v AND 0x7F) OR 0x80))"
  by (subst add_varinum_shift.simps) (simp add: Let_def)

lemma emit_stop:
  "buffer AND 0x80 = 0 \<Longrightarrow> add_varinum_emit buffer bytes = bytes @ [ucast buffer]"
  by (subst add_varinum_emit.simps) (simp add: put_def ucast_and_FF)

lemma emit_step:
  "buffer AND 0x80 \<noteq> 0 \<Longrightarrow>
   add_varinum_emit buffer bytes = add_varinum_emit (drop_bit 8 buffer) (bytes @ [ucast buffer])"
  by (subst add_varinum_emit.simps) (simp add: put_def ucast_and_FF)

lemma take_push:
  fixes b x :: "'a::len word"
  assumes "take_bit k b = b"
  shows "take_bit (k + 8) (push_bit 8 b OR ((x AND 0x7F) OR 0x80)) = push_bit 8 b OR ((x AND 0x7F) OR 0x80)"
proof (rule bit_eqI)
  fix n assume "possible_bit TYPE('a word) n"
  have lt: "\<And>m. bit b m \<Longrightarrow> m < k"
    using assms(1) by (metis bit_take_bit_iff)
  have "bit (push_bit 8 b OR ((x AND 0x7F) OR 0x80)) n \<Longrightarrow> n < k + 8"
  proof -
    assume "bit (push_bit 8 b OR ((x AND 0x7F) OR 0x80)) n"
    then consider "8 \<le> n" "bit b (n - 8)" | "n < 7" | "n = 7"
      by (auto simp: bit_simps bit_consts)
    then show "n < k + 8"
    proof cases
      case 1
      then show ?thesis using lt [of "n - 8"] by simp
    qed simp_all
  qed
  then show "bit (take_bit (k + 8) (push_bit 8 b OR ((x AND 0x7F) OR 0x80))) n = bit (push_bit 8 b OR ((x AND 0x7F) OR 0x80)) n"
    by (simp only: bit_take_bit_iff) blast
qed


lemma take_bit_widen:
  fixes b :: "'a::len word"
  assumes "take_bit k b = b" "k \<le> m"
  shows "take_bit m b = b"
proof (rule bit_eqI)
  fix n assume "possible_bit TYPE('a word) n"
  have "bit b n \<Longrightarrow> n < k" using assms(1) by (metis bit_take_bit_iff)
  then show "bit (take_bit m b) n = bit b n"
    using assms(2) by (auto simp: bit_take_bit_iff)
qed

lemma take_vgroup: "take_bit 7 (v AND 0x7F :: 'a::len word) = v AND 0x7F"
  by (rule bit_eqI) (auto simp: bit_simps bit_consts)

lemma unat_drop: "unat (drop_bit n (v :: 'a::len word)) = unat v div 2 ^ n"
proof -
  have "unat (drop_bit n v) = drop_bit n (unat v)" by (rule unat_drop_bit_eq)
  also have "\<dots> = unat v div 2 ^ n" by (rule drop_bit_eq_div)
  finally show ?thesis .
qed

lemma drop_zero_iff: "drop_bit n (v :: 'a::len word) = 0 \<longleftrightarrow> unat v < 2 ^ n"
proof -
  have "unat (drop_bit n v) = 0 \<longleftrightarrow> unat v < 2 ^ n"
    by (simp only: unat_drop) (simp add: div_eq_0_iff)
  then show ?thesis by (simp only: unat_eq_0)
qed

lemma shift_step':
  "drop_bit (n + 7) v \<noteq> 0 \<Longrightarrow>
   add_varinum_shift (drop_bit n v) b =
     add_varinum_shift (drop_bit (n + 7) v) (push_bit 8 b OR grp (n + 7) v)"
  using shift_step [of "drop_bit n v" b] by (simp add: grp_def add.commute)

lemma shift_stop':
  "drop_bit (n + 7) v = 0 \<Longrightarrow> add_varinum_shift (drop_bit n v) b = b"
  using shift_stop [of "drop_bit n v" b] by (simp add: add.commute)

lemma emit_group:
  fixes b :: "'a::len word"
  assumes "take_bit 24 b = b" "32 \<le> LENGTH('a)"
  shows "add_varinum_emit (push_bit 8 b OR grp n v) bytes =
         add_varinum_emit b (bytes @ [ucast (grp n v)])"
proof -
  have L: "8 \<le> LENGTH('a)" using assms(2) by simp
  have "add_varinum_emit (push_bit 8 b OR grp n v) bytes =
        add_varinum_emit (drop_bit 8 (push_bit 8 b OR grp n v))
          (bytes @ [ucast (push_bit 8 b OR grp n v)])"
    unfolding grp_def by (rule emit_step) (rule group_flag [OF L])
  also have "drop_bit 8 (push_bit 8 b OR grp n v) = b"
    unfolding grp_def by (rule drop_group [OF assms])
  also have "(ucast (push_bit 8 b OR grp n v) :: byte) = ucast (grp n v)"
    by (rule ucast_group)
  finally show ?thesis .
qed

lemma emit_last: "add_varinum_emit (v AND 0x7F) bytes = bytes @ [ucast (v AND 0x7F)]"
  by (rule emit_stop) (rule last_flag)

lemma take24_group:
  fixes b :: "'a::len word"
  assumes "take_bit k b = b" "k + 8 \<le> 24"
  shows "take_bit 24 (push_bit 8 b OR grp n v) = push_bit 8 b OR grp n v"
  unfolding grp_def by (rule take_bit_widen [OF take_push [OF assms(1)] assms(2)])

lemma enc1:
  fixes v :: "'a::len word"
  assumes "unat v < 2 ^ 7"
  shows "add_varinum v bytes = bytes @ [ucast (v AND 0x7F)]"
proof -
  have "drop_bit (0 + 7) v = 0" using assms by (simp only: drop_zero_iff) simp
  from shift_stop' [OF this] have "add_varinum_shift v (v AND 0x7F) = v AND 0x7F" by simp
  then show ?thesis by (simp add: add_varinum_def emit_last)
qed

lemma enc2:
  fixes v :: "'a::len word"
  assumes "2 ^ 7 \<le> unat v" "unat v < 2 ^ 14" "32 \<le> LENGTH('a)"
  shows "add_varinum v bytes = bytes @ [ucast (grp 7 v), ucast (v AND 0x7F)]"
proof -
  let ?b0 = "v AND 0x7F"
  let ?b1 = "push_bit 8 ?b0 OR grp 7 v"
  have n1: "drop_bit (0 + 7) v \<noteq> 0" using assms(1) by (simp only: drop_zero_iff) simp
  have z2: "drop_bit (7 + 7) v = 0" using assms(2) by (simp only: drop_zero_iff) simp
  have "add_varinum_shift v ?b0 = add_varinum_shift (drop_bit 7 v) ?b1"
    using shift_step' [OF n1, of ?b0] by simp
  also have "\<dots> = ?b1" by (rule shift_stop' [OF z2])
  finally have sh: "add_varinum_shift v ?b0 = ?b1" .
  have t0: "take_bit 24 ?b0 = ?b0" by (rule take_bit_widen [OF take_vgroup]) simp
  show ?thesis
    by (simp only: add_varinum_def sh emit_group [OF t0 assms(3)] emit_last) simp
qed

lemma enc3:
  fixes v :: "'a::len word"
  assumes "2 ^ 14 \<le> unat v" "unat v < 2 ^ 21" "32 \<le> LENGTH('a)"
  shows "add_varinum v bytes = bytes @ [ucast (grp 14 v), ucast (grp 7 v), ucast (v AND 0x7F)]"
proof -
  let ?b0 = "v AND 0x7F"
  let ?b1 = "push_bit 8 ?b0 OR grp 7 v"
  let ?b2 = "push_bit 8 ?b1 OR grp 14 v"
  have "(2::nat) ^ 7 \<le> 2 ^ 14" by simp
  then have "2 ^ 7 \<le> unat v" using assms(1) by (rule order_trans)
  then have n1: "drop_bit (0 + 7) v \<noteq> 0" by (simp only: drop_zero_iff) simp
  have n2: "drop_bit (7 + 7) v \<noteq> 0" using assms(1) by (simp only: drop_zero_iff) simp
  have z3: "drop_bit (14 + 7) v = 0" using assms(2) by (simp only: drop_zero_iff) simp
  have "add_varinum_shift v ?b0 = add_varinum_shift (drop_bit 7 v) ?b1"
    using shift_step' [OF n1, of ?b0] by simp
  also have "\<dots> = add_varinum_shift (drop_bit 14 v) ?b2"
    using shift_step' [OF n2, of ?b1] by simp
  also have "\<dots> = ?b2" by (rule shift_stop' [OF z3])
  finally have sh: "add_varinum_shift v ?b0 = ?b2" .
  have t0: "take_bit 24 ?b0 = ?b0" by (rule take_bit_widen [OF take_vgroup]) simp
  have t1: "take_bit 24 ?b1 = ?b1" by (rule take24_group [OF take_vgroup]) simp
  show ?thesis
    by (simp only: add_varinum_def sh emit_group [OF t1 assms(3)]
        emit_group [OF t0 assms(3)] emit_last) simp
qed

lemma enc4:
  fixes v :: "'a::len word"
  assumes "2 ^ 21 \<le> unat v" "unat v < 2 ^ 28" "32 \<le> LENGTH('a)"
  shows "add_varinum v bytes =
           bytes @ [ucast (grp 21 v), ucast (grp 14 v), ucast (grp 7 v), ucast (v AND 0x7F)]"
proof -
  let ?b0 = "v AND 0x7F"
  let ?b1 = "push_bit 8 ?b0 OR grp 7 v"
  let ?b2 = "push_bit 8 ?b1 OR grp 14 v"
  let ?b3 = "push_bit 8 ?b2 OR grp 21 v"
  have "(2::nat) ^ 7 \<le> 2 ^ 21" by simp
  then have "2 ^ 7 \<le> unat v" using assms(1) by (rule order_trans)
  then have n1: "drop_bit (0 + 7) v \<noteq> 0" by (simp only: drop_zero_iff) simp
  have "(2::nat) ^ 14 \<le> 2 ^ 21" by simp
  then have "2 ^ 14 \<le> unat v" using assms(1) by (rule order_trans)
  then have n2: "drop_bit (7 + 7) v \<noteq> 0" by (simp only: drop_zero_iff) simp
  have n3: "drop_bit (14 + 7) v \<noteq> 0" using assms(1) by (simp only: drop_zero_iff) simp
  have z4: "drop_bit (21 + 7) v = 0" using assms(2) by (simp only: drop_zero_iff) simp
  have "add_varinum_shift v ?b0 = add_varinum_shift (drop_bit 7 v) ?b1"
    using shift_step' [OF n1, of ?b0] by simp
  also have "\<dots> = add_varinum_shift (drop_bit 14 v) ?b2"
    using shift_step' [OF n2, of ?b1] by simp
  also have "\<dots> = add_varinum_shift (drop_bit 21 v) ?b3"
    using shift_step' [OF n3, of ?b2] by simp
  also have "\<dots> = ?b3" by (rule shift_stop' [OF z4])
  finally have sh: "add_varinum_shift v ?b0 = ?b3" .
  have t0: "take_bit 24 ?b0 = ?b0" by (rule take_bit_widen [OF take_vgroup]) simp
  have t1: "take_bit 24 ?b1 = ?b1" by (rule take24_group [OF take_vgroup]) simp
  have t1': "take_bit (7 + 8) ?b1 = ?b1" unfolding grp_def by (rule take_push [OF take_vgroup])
  have t2: "take_bit 24 ?b2 = ?b2" by (rule take24_group [OF t1']) simp
  show ?thesis
    by (simp only: add_varinum_def sh emit_group [OF t2 assms(3)] emit_group [OF t1 assms(3)]
        emit_group [OF t0 assms(3)] emit_last) simp
qed

subsection \<open>The bytes of a quantity below \<open>2 ^ 28\<close>\<close>

lemma grp_flag_byte: "bit (ucast (grp n (v :: 'a::len word)) :: byte) 7 \<longleftrightarrow> 8 \<le> LENGTH('a)"
  unfolding grp_def by (auto simp: bit_simps bit_consts)

lemma last_flag_byte: "\<not> bit (ucast (v AND 0x7F :: 'a::len word) :: byte) 7"
  by (auto simp: bit_simps bit_consts)

lemma unat_and_7F: "unat (w AND 0x7F :: 'a::len word) = unat w mod 128"
proof -
  have "w AND 0x7F = take_bit 7 w"
    by (rule bit_eqI) (auto simp: bit_simps bit_consts)
  then have "unat (w AND 0x7F) = unat (take_bit 7 w)" by simp
  also have "\<dots> = take_bit 7 (unat w)" by (rule unsigned_take_bit_eq)
  also have "\<dots> = unat w mod 2 ^ 7" by (rule take_bit_eq_mod)
  finally show ?thesis by simp
qed

lemma grp_data: 
  fixes v :: "'a::len word"
  assumes "8 \<le> LENGTH('a)"
  shows "unat ((ucast (grp n v) :: byte) AND 0x7F) = unat v div 2 ^ n mod 128"
proof -
  have "(ucast (grp n v) :: byte) AND 0x7F = ucast (drop_bit n v AND 0x7F)"
    unfolding grp_def by (rule bit_eqI) (auto simp: bit_simps bit_consts)
  moreover have "unat (ucast (drop_bit n v AND 0x7F) :: byte) = unat (drop_bit n v AND 0x7F)"
  proof -
    have "take_bit 8 (drop_bit n v AND 0x7F) = drop_bit n v AND 0x7F"
      by (rule take_bit_widen [OF take_vgroup]) simp
    have "unat (drop_bit n v AND 0x7F) < 256"
    proof -
      have "unat (drop_bit n v) mod 128 < 128" by simp
      then have "unat (drop_bit n v) mod 128 < 256" by simp
      then show ?thesis by (simp only: unat_and_7F)
    qed
    then show ?thesis by (simp add: unsigned_ucast_eq take_bit_eq_mod)
  qed
  ultimately show ?thesis by (simp add: unat_and_7F unat_drop)
qed

lemma horner_step: "(W::nat) div (k * 128) * 128 + W div k mod 128 = W div k"
proof -
  have "W div (k * 128) = W div k div 128" by (rule div_mult2_eq)
  then show ?thesis by simp
qed

lemma arith4:
  fixes V :: nat
  assumes "V < 2 ^ 28"
  shows "((V div 2 ^ 21 mod 128 * 128 + V div 2 ^ 14 mod 128) * 128 + V div 2 ^ 7 mod 128) * 128
           + V mod 128 = V"
proof -
  have "V div 2 ^ 21 < 128" using assms by (simp add: less_mult_imp_div_less)
  then have a: "V div 2 ^ 21 mod 128 = V div 2 ^ 21" by simp
  have b: "V div 2 ^ 21 * 128 + V div 2 ^ 14 mod 128 = V div 2 ^ 14"
    using horner_step [of V "2 ^ 14"] by simp
  have c: "V div 2 ^ 14 * 128 + V div 2 ^ 7 mod 128 = V div 2 ^ 7"
    using horner_step [of V "2 ^ 7"] by simp
  have d: "V div 2 ^ 7 * 128 + V mod 128 = V" by simp
  show ?thesis by (simp only: a b c d)
qed

lemma len_min:
  fixes V :: nat
  assumes "128 ^ k \<le> V" "V < 128 ^ n"
  shows "Suc k \<le> n"
proof -
  have "(128::nat) ^ k < 128 ^ n" using assms by (rule le_less_trans)
  then have "k < n" by (simp add: power_strict_increasing_iff)
  then show ?thesis by simp
qed

lemma lead_nonzero:
  fixes v :: "'a::len word"
  assumes "8 \<le> LENGTH('a)" "2 ^ n \<le> unat v" "unat v < 2 ^ (n + 7)"
  shows "(ucast (grp n v) :: byte) AND 0x7F \<noteq> 0"
proof -
  have "0 < unat v div 2 ^ n" using assms(2) by (simp add: div_greater_zero_iff)
  moreover have "unat v div 2 ^ n < 128"
    using assms(3) by (simp add: less_mult_imp_div_less power_add)
  ultimately have nz: "unat v div 2 ^ n mod 128 \<noteq> 0" by simp
  have u: "unat ((ucast (grp n v) :: byte) AND 0x7F) = unat v div 2 ^ n mod 128"
    by (rule grp_data [OF assms(1)])
  show ?thesis
  proof
    assume "(ucast (grp n v) :: byte) AND 0x7F = 0"
    then have "unat ((ucast (grp n v) :: byte) AND 0x7F) = 0" by simp
    with u nz show False by simp
  qed
qed

lemma last_data:
  fixes v :: "'a::len word"
  shows "unat ((ucast (v AND 0x7F) :: byte) AND 0x7F) = unat v mod 128"
proof -
  have "(ucast (v AND 0x7F) :: byte) AND 0x7F = ucast (v AND 0x7F)"
    by (rule bit_eqI) (auto simp: bit_simps bit_consts)
  moreover have "unat (ucast (v AND 0x7F) :: byte) = unat (v AND 0x7F)"
  proof -
    have "unat v mod 128 < 128" by simp
    then have "unat v mod 128 < 256" by simp
    then have "unat (v AND 0x7F) < 256" by (simp only: unat_and_7F)
    then show ?thesis by (simp add: unsigned_ucast_eq take_bit_eq_mod)
  qed
  ultimately show ?thesis by (simp add: unat_and_7F)
qed

text \<open>
  C4. For every unsigned \<open>v\<close> in \<open>[0, 2^28 - 1]\<close> (held in an unsigned type of at
  least 32 bits), \<open>track::add_varinum\<close> appends to the container between one and four
  bytes; every byte but the last has the continuation flag (bit 7) set and the last has
  it clear; the encoding is minimal (no sequence of fewer groups can hold \<open>v\<close>, and
  the leading group of a longer encoding is not zero); the low 7 bits of the bytes are
  the base-128 digits of \<open>v\<close>, most significant first; and reading the bytes back by
  the variable-length rule yields \<open>v\<close> and leaves the bytes that follow.
\<close>

theorem add_varinum_vlq:
  fixes v :: "'a::len word"
  assumes len: "32 \<le> LENGTH('a)" and bound: "unat v < 2 ^ 28"
  shows "add_varinum v bytes = bytes @ add_varinum v []
       \<and> add_varinum v [] \<noteq> []
       \<and> length (add_varinum v []) \<le> 4
       \<and> (\<forall>b \<in> set (butlast (add_varinum v [])). bit b 7)
       \<and> \<not> bit (last (add_varinum v [])) 7
       \<and> (\<forall>n. 0 < n \<and> unat v < 128 ^ n \<longrightarrow> length (add_varinum v []) \<le> n)
       \<and> (1 < length (add_varinum v []) \<longrightarrow> hd (add_varinum v []) AND 0x7F \<noteq> 0)
       \<and> map (\<lambda>b. unat (b AND 0x7F)) (add_varinum v [])
           = map (\<lambda>i. unat v div 128 ^ i mod 128) (rev [0..<length (add_varinum v [])])
       \<and> decode_varint (add_varinum v [] @ rest) = Some (unat v, rest)"
proof -
  have L8: "8 \<le> LENGTH('a)" using len by simp
  note flags = grp_flag_byte last_flag_byte
  consider (one) "unat v < 2 ^ 7"
    | (two) "2 ^ 7 \<le> unat v" "unat v < 2 ^ 14"
    | (three) "2 ^ 14 \<le> unat v" "unat v < 2 ^ 21"
    | (four) "2 ^ 21 \<le> unat v" "unat v < 2 ^ 28"
    using bound by linarith
  then show ?thesis
  proof cases
    case one
    have e: "\<And>bytes. add_varinum v bytes = bytes @ [ucast (v AND 0x7F)]"
      by (rule enc1 [OF one])
    have lm: "\<And>n. 0 < n \<Longrightarrow> Suc 0 \<le> n" by simp
    have d: "unat ((ucast (v AND 0x7F) :: byte) AND 0x7F) = unat v"
      using one by (simp add: last_data)
    have m: "unat v mod 128 = unat v" using one by simp
    show ?thesis
      unfolding decode_varint_def
      using L8 m d by (simp add: e flags)
  next
    case two
    have e: "\<And>bytes. add_varinum v bytes = bytes @ [ucast (grp 7 v), ucast (v AND 0x7F)]"
      by (rule enc2 [OF two len])
    have lm: "\<And>n. unat v < 128 ^ n \<Longrightarrow> Suc (Suc 0) \<le> n"
      using two(1) len_min [of 1 "unat v"] by simp
    have ld: "(ucast (grp 7 v) :: byte) AND 0x7F \<noteq> 0"
      using two by (intro lead_nonzero [OF L8]) simp_all
    have "unat v div 2 ^ 7 < 128" using two(2) by (simp add: less_mult_imp_div_less)
    then have d: "unat v div 2 ^ 7 mod 128 * 128 + unat v mod 128 = unat v" by simp
    show ?thesis
      unfolding decode_varint_def
      using L8 d lm ld by (simp add: e flags grp_data [OF L8] last_data)
  next
    case three
    have e: "\<And>bytes. add_varinum v bytes =
               bytes @ [ucast (grp 14 v), ucast (grp 7 v), ucast (v AND 0x7F)]"
      by (rule enc3 [OF three len])
    have lm: "Suc (Suc (Suc 0)) \<le> n" if "unat v < 128 ^ n" for n
    proof -
      have "Suc 2 \<le> n" using three(1) that by (intro len_min [of 2 "unat v"]) simp_all
      then show ?thesis by arith
    qed
    have ld: "(ucast (grp 14 v) :: byte) AND 0x7F \<noteq> 0"
      using three by (intro lead_nonzero [OF L8]) simp_all
    have "unat v < 2 ^ 28" using three(2) by simp
    from arith4 [OF this] have d4: "((unat v div 2 ^ 21 mod 128 * 128 + unat v div 2 ^ 14 mod 128) * 128
            + unat v div 2 ^ 7 mod 128) * 128 + unat v mod 128 = unat v" .
    have "unat v div 2 ^ 21 = 0" using three(2) by simp
    with d4 have d: "(unat v div 2 ^ 14 mod 128 * 128 + unat v div 2 ^ 7 mod 128) * 128
            + unat v mod 128 = unat v" by simp
    have "unat v div 2 ^ 14 < 128" using three(2) by (simp add: less_mult_imp_div_less)
    then have m: "unat v div 2 ^ 14 mod 128 = unat v div 2 ^ 14" by simp
    show ?thesis
      unfolding decode_varint_def
      using L8 m d lm ld by (simp add: e flags grp_data [OF L8] last_data)
  next
    case four
    have e: "\<And>bytes. add_varinum v bytes =
               bytes @ [ucast (grp 21 v), ucast (grp 14 v), ucast (grp 7 v), ucast (v AND 0x7F)]"
      by (rule enc4 [OF four len])
    have lm: "Suc (Suc (Suc (Suc 0))) \<le> n" if "unat v < 128 ^ n" for n
    proof -
      have "Suc 3 \<le> n" using four(1) that by (intro len_min [of 3 "unat v"]) simp_all
      then show ?thesis by arith
    qed
    have ld: "(ucast (grp 21 v) :: byte) AND 0x7F \<noteq> 0"
      using four by (intro lead_nonzero [OF L8]) simp_all
    from arith4 [OF four(2)] have d: "((unat v div 2 ^ 21 mod 128 * 128 + unat v div 2 ^ 14 mod 128) * 128
            + unat v div 2 ^ 7 mod 128) * 128 + unat v mod 128 = unat v" .
    have "unat v div 2 ^ 21 < 128" using four(2) by (simp add: less_mult_imp_div_less)
    then have m: "unat v div 2 ^ 21 mod 128 = unat v div 2 ^ 21" by simp
    show ?thesis
      unfolding decode_varint_def
      using L8 m d lm ld by (simp add: e flags grp_data [OF L8] last_data)
  qed
qed

theorem add_varinum_vlq_witness:
  "32 \<le> LENGTH(64) \<and> unat (0x0FFFFFFF :: 64 word) < 2 ^ 28
   \<and> add_varinum (0x0FFFFFFF :: 64 word) [] = [0xFF, 0xFF, 0xFF, 0x7F]
   \<and> decode_varint (add_varinum (0x0FFFFFFF :: 64 word) [] @ [0x01]) = Some (268435455, [0x01])"
proof -
  have h1: "32 \<le> LENGTH(64)" by simp
  have h2: "unat (0x0FFFFFFF :: 64 word) < 2 ^ 28" by simp
  have e: "add_varinum (0x0FFFFFFF :: 64 word) [] = [0xFF, 0xFF, 0xFF, 0x7F]" by code_simp
  show ?thesis
    using h1 h2 e add_varinum_vlq [OF h1 h2, of "[]" "[0x01]"] by simp
qed


section \<open>Writers append\<close>

text \<open>Every writer leaves the bytes already in the container alone and appends its own.\<close>

lemma emit_decreases:
  fixes b :: "'a::len word"
  assumes "b AND 0x80 \<noteq> 0"
  shows "unat (drop_bit 8 b) < unat b"
proof -
  have "b \<noteq> 0" using assms by auto
  then have pos: "0 < unat b" by (simp add: unat_gt_0)
  have "unat b div 2 ^ 8 < unat b" using pos by (intro div_less_dividend) simp_all
  then show ?thesis by (simp only: unat_drop)
qed

lemma add_varinum_emit_append:
  "add_varinum_emit b bytes = bytes @ add_varinum_emit b []"
proof (induction "unat b" arbitrary: b bytes rule: less_induct)
  case less
  show ?case
  proof (cases "b AND 0x80 = 0")
    case True
    then show ?thesis by (simp add: emit_stop)
  next
    case False
    have dec: "unat (drop_bit 8 b) < unat b" by (rule emit_decreases [OF False])
    have "add_varinum_emit b bytes = add_varinum_emit (drop_bit 8 b) (bytes @ [ucast b])"
      by (rule emit_step [OF False])
    also have "\<dots> = (bytes @ [ucast b]) @ add_varinum_emit (drop_bit 8 b) []"
      by (rule less [OF dec])
    finally have l: "add_varinum_emit b bytes = bytes @ [ucast b] @ add_varinum_emit (drop_bit 8 b) []"
      by simp
    have "add_varinum_emit b [] = add_varinum_emit (drop_bit 8 b) ([] @ [ucast b])"
      by (rule emit_step [OF False])
    also have "\<dots> = ([] @ [ucast b]) @ add_varinum_emit (drop_bit 8 b) []"
      by (rule less [OF dec])
    finally have r: "add_varinum_emit b [] = [ucast b] @ add_varinum_emit (drop_bit 8 b) []"
      by simp
    show ?thesis by (simp only: l r)
  qed
qed

lemma add_varinum_append: "add_varinum v bytes = bytes @ add_varinum v []"
  unfolding add_varinum_def by (rule add_varinum_emit_append)

lemma add_long_append: "add_long v bytes = bytes @ add_long v []"
  by (simp add: add_long_def put_def)

lemma add_short_append: "add_short v bytes = bytes @ add_short v []"
  by (simp add: add_short_def put_def)

lemma put_meta_append: "put_meta m n d bytes = bytes @ put_meta m n d []"
proof -
  have 1: "add_varinum (word_of_int d :: ulong) bytes = bytes @ add_varinum (word_of_int d :: ulong) []"
    by (rule add_varinum_append)
  have 2: "put_meta m n d bytes =
             put m (put EVENT_MIDI_META (add_varinum (word_of_int d :: ulong) bytes))
               @ add_varinum (word_of_int n :: ulong) []" for bytes
    unfolding put_meta_def Let_def by (rule add_varinum_append)
  show ?thesis by (simp only: 2 1 put_def append_assoc append_Nil)
qed

lemma put_seqspec_append: "put_seqspec t n bytes = bytes @ put_seqspec t n []"
proof -
  have 1: "put_meta EVENT_META_SEQSPEC (n + 4) 0 bytes = bytes @ put_meta EVENT_META_SEQSPEC (n + 4) 0 []"
    by (rule put_meta_append)
  have 2: "put_seqspec t n bytes = put_meta EVENT_META_SEQSPEC (n + 4) 0 bytes @ add_long t []" for bytes
    unfolding put_seqspec_def Let_def by (rule add_long_append)
  show ?thesis by (simp only: 2 1 append_assoc)
qed

section \<open>Song export\<close>

subsection \<open>The replay of one trigger\<close>

lemma c_div_nonneg: "0 \<le> a \<Longrightarrow> 0 < b \<Longrightarrow> c_div a b = a div b"
  by (cases "a = 0") (simp_all add: c_div_def)

lemma c_mod_nonneg: "0 \<le> a \<Longrightarrow> 0 < b \<Longrightarrow> c_mod a b = a mod b"
  by (simp add: c_mod_def c_div_nonneg minus_div_mult_eq_mod)

lemma narrow_int_id:
  assumes "- 2147483648 \<le> v" and "v < 2147483648"
  shows "narrow_int v = v"
  unfolding narrow_int_def using assms
  by (simp add: sint_sbintrunc' signed_take_bit_int_eq_self)

lemma narrow_int_le: "narrow_int v \<le> INT_MAX"
  using sint_lt [of "word_of_int v :: 32 word"] by (simp add: narrow_int_def INT_MAX_def)

lemma passes_foldl:
  "times_played < INT_MAX \<Longrightarrow>
   song_fill_seq_event_passes s trig len times_played p time_offset st =
     Inr (foldl (\<lambda>st q. song_fill_seq_event_pass s trig (time_offset + (q - p) * len) st) st
            [p..times_played])"
proof (induction s trig len times_played p time_offset st
        rule: song_fill_seq_event_passes.induct)
  case (1 s trig len times_played p time_offset st)
  show ?case
  proof (cases "p \<le> times_played")
    case True
    have ne: "p \<noteq> INT_MAX" using True "1.prems" by simp
    have eq: "(\<lambda>st q. song_fill_seq_event_pass s trig (time_offset + len + (q - (p + 1)) * len) st)
            = (\<lambda>st q. song_fill_seq_event_pass s trig (time_offset + (q - p) * len) st)"
      by (simp add: algebra_simps)
    have up: "[p..times_played] = p # [p + 1..times_played]"
      using True by (simp add: upto_rec1)
    have ih: "song_fill_seq_event_passes s trig len times_played (p + 1) (time_offset + len)
                (song_fill_seq_event_pass s trig time_offset st) =
              Inr (foldl (\<lambda>st q. song_fill_seq_event_pass s trig
                                    (time_offset + len + (q - (p + 1)) * len) st)
                     (song_fill_seq_event_pass s trig time_offset st) [p + 1..times_played])"
      using "1.IH" [OF True refl ne "1.prems"] .
    show ?thesis
      by (subst song_fill_seq_event_passes.simps) (simp add: True ne ih eq up Let_def)
  next
    case False
    then show ?thesis
      by (subst song_fill_seq_event_passes.simps) simp
  qed
qed

lemma passes_overflow:
  "times_played = INT_MAX \<Longrightarrow> p \<le> times_played \<Longrightarrow>
   song_fill_seq_event_passes s trig len times_played p time_offset st = Inl SignedOverflow"
proof (induction s trig len times_played p time_offset st
        rule: song_fill_seq_event_passes.induct)
  case (1 s trig len times_played p time_offset st)
  show ?case
  proof (cases "p = INT_MAX")
    case True
    then show ?thesis
      using "1.prems" by (subst song_fill_seq_event_passes.simps) (simp add: Let_def)
  next
    case False
    then have "p + 1 \<le> times_played" using "1.prems" by simp
    then have "song_fill_seq_event_passes s trig len times_played (p + 1) (time_offset + len)
                (song_fill_seq_event_pass s trig time_offset st) = Inl SignedOverflow"
      using "1.IH" [OF "1.prems"(2) refl False "1.prems"(1)] by simp
    then show ?thesis
      using "1.prems" False by (subst song_fill_seq_event_passes.simps) (simp add: Let_def)
  qed
qed

text \<open>
  C1, as the code has it. For every trigger that \<open>track::song_fill_seq_event\<close>
  processes with a pattern length \<open>len > 0\<close>: the replay starts at the time offset
  \<open>tick_start + (offset % len) - (tick_start % len)\<close>, less one pattern length
  exactly when \<open>offset % len > tick_start % len\<close>; the pattern is replayed in the
  passes \<open>p = 0, ..., times_played\<close>, pass \<open>p\<close> at the initial offset plus \<open>p\<close>
  pattern lengths, where \<open>times_played\<close> is \<open>1 + (length - 1) / len\<close> stored in an
  \<open>int\<close>. It is that value when the value lies between \<open>-2^31\<close> and \<open>2^31 - 1\<close>,
  and its low 32 bits read as a signed number otherwise; when \<open>times_played\<close> is
  \<open>2^31 - 1\<close> the loop counter overflows after the last pass. For ticks that are not
  negative \<open>%\<close> is the usual remainder. For a length of 192 and the trigger
  \<open>{tick_start = 100, tick_end = 300, offset = 50}\<close> the initial offset is 50, with
  no adjustment, and there are the three passes 0, 1 and 2.
\<close>

theorem song_fill_seq_event_phase:
  assumes "0 < m_length s"
  shows "song_fill_seq_event s trig prev bytes =
           (let len = m_length s;
                trig_offset = c_mod (offset trig) len;
                start_offset = c_mod (tick_start trig) len;
                time_offset = tick_start trig + trig_offset - start_offset
                                - (if trig_offset > start_offset then len else 0);
                times_played = narrow_int (1 + c_div (trigger_length trig - 1) len);
                st = foldl (\<lambda>st p. song_fill_seq_event_pass s trig (time_offset + p * len) st)
                       \<lparr>note_is_used = (\<lambda>i. 0), prev_timestamp = prev, m_bytes = bytes\<rparr>
                       [0..times_played]
            in if times_played = INT_MAX then Inl SignedOverflow
               else Inr (prev_timestamp st, m_bytes st))
       \<and> (- 2147483648 \<le> 1 + c_div (trigger_length trig - 1) (m_length s)
            \<and> 1 + c_div (trigger_length trig - 1) (m_length s) < 2147483648 \<longrightarrow>
          narrow_int (1 + c_div (trigger_length trig - 1) (m_length s))
            = 1 + c_div (trigger_length trig - 1) (m_length s))
       \<and> narrow_int (1 + c_div (trigger_length trig - 1) (m_length s))
            = sint (word_of_int (1 + c_div (trigger_length trig - 1) (m_length s)) :: 32 word)
       \<and> (0 \<le> offset trig \<longrightarrow> c_mod (offset trig) (m_length s) = offset trig mod m_length s)
       \<and> (0 \<le> tick_start trig \<longrightarrow>
            c_mod (tick_start trig) (m_length s) = tick_start trig mod m_length s)
       \<and> (m_length s = 192 \<and> tick_start trig = 100 \<and> tick_end trig = 300 \<and> offset trig = 50 \<longrightarrow>
            song_fill_seq_event s trig prev bytes =
              (let st = foldl (\<lambda>st p. song_fill_seq_event_pass s trig (50 + p * 192) st)
                          \<lparr>note_is_used = (\<lambda>i. 0), prev_timestamp = prev, m_bytes = bytes\<rparr>
                          [0, 1, 2]
               in Inr (prev_timestamp st, m_bytes st)))"
proof -
  have nz: "m_length s \<noteq> 0" using assms by simp
  have main: "song_fill_seq_event s trig prev bytes =
           (let len = m_length s;
                trig_offset = c_mod (offset trig) len;
                start_offset = c_mod (tick_start trig) len;
                time_offset = tick_start trig + trig_offset - start_offset
                                - (if trig_offset > start_offset then len else 0);
                times_played = narrow_int (1 + c_div (trigger_length trig - 1) len);
                st = foldl (\<lambda>st p. song_fill_seq_event_pass s trig (time_offset + p * len) st)
                       \<lparr>note_is_used = (\<lambda>i. 0), prev_timestamp = prev, m_bytes = bytes\<rparr>
                       [0..times_played]
            in if times_played = INT_MAX then Inl SignedOverflow
               else Inr (prev_timestamp st, m_bytes st))" for trig
  proof (cases "narrow_int (1 + c_div (trigger_length trig - 1) (m_length s)) = INT_MAX")
    case True
    then show ?thesis
      using nz by (simp add: song_fill_seq_event_def get_length_def Let_def passes_overflow INT_MAX_def)
  next
    case False
    then have lt: "narrow_int (1 + c_div (trigger_length trig - 1) (m_length s)) < INT_MAX"
      using narrow_int_le [of "1 + c_div (trigger_length trig - 1) (m_length s)"] by simp
    show ?thesis
      using nz False
      by (simp add: song_fill_seq_event_def get_length_def Let_def passes_foldl [OF lt])
  qed
  have rng: "- 2147483648 \<le> 1 + c_div (trigger_length trig - 1) (m_length s)
            \<and> 1 + c_div (trigger_length trig - 1) (m_length s) < 2147483648 \<longrightarrow>
          narrow_int (1 + c_div (trigger_length trig - 1) (m_length s))
            = 1 + c_div (trigger_length trig - 1) (m_length s)"
    using narrow_int_id by blast
  have nar: "narrow_int (1 + c_div (trigger_length trig - 1) (m_length s))
            = sint (word_of_int (1 + c_div (trigger_length trig - 1) (m_length s)) :: 32 word)"
    by (rule narrow_int_def)
  have conc: "song_fill_seq_event s trig prev bytes =
              (let st = foldl (\<lambda>st p. song_fill_seq_event_pass s trig (50 + p * 192) st)
                          \<lparr>note_is_used = (\<lambda>i. 0), prev_timestamp = prev, m_bytes = bytes\<rparr>
                          [0, 1, 2]
               in Inr (prev_timestamp st, m_bytes st))"
    if h: "m_length s = 192" "tick_start trig = 100" "tick_end trig = 300" "offset trig = 50"
  proof -
    have u: "[0..2::int] = [0, 1, 2]" by (simp add: upto_rec1)
    have tp: "1 + c_div (trigger_length trig - 1) (m_length s) = 2"
      by (simp add: h c_div_nonneg trigger_length_def)
    have n2: "narrow_int (1 + c_div (trigger_length trig - 1) (m_length s)) = 2"
      using narrow_int_id [of "1 + c_div (trigger_length trig - 1) (m_length s)"] tp by simp
    have n2': "narrow_int (1 + c_div (trigger_length trig - 1) 192) = 2"
      using n2 h(1) by simp
    show ?thesis
      by (simp add: main h Let_def c_mod_nonneg n2' u INT_MAX_def)
  qed
  have m1: "0 \<le> offset trig \<longrightarrow> c_mod (offset trig) (m_length s) = offset trig mod m_length s"
    using assms by (simp add: c_mod_nonneg)
  have m2: "0 \<le> tick_start trig \<longrightarrow>
            c_mod (tick_start trig) (m_length s) = tick_start trig mod m_length s"
    using assms by (simp add: c_mod_nonneg)
  have m3: "m_length s = 192 \<and> tick_start trig = 100 \<and> tick_end trig = 300 \<and> offset trig = 50 \<longrightarrow>
            song_fill_seq_event s trig prev bytes =
              (let st = foldl (\<lambda>st p. song_fill_seq_event_pass s trig (50 + p * 192) st)
                          \<lparr>note_is_used = (\<lambda>i. 0), prev_timestamp = prev, m_bytes = bytes\<rparr>
                          [0, 1, 2]
               in Inr (prev_timestamp st, m_bytes st))"
    using conc by blast
  from main [of trig] rng nar m1 m2 m3 show ?thesis by (intro conjI)
qed

text \<open>
  An instance: for a trigger of \<open>2^31\<close> ticks over a pattern of length 1 the
  quotient plus one is \<open>2^31\<close>, the \<open>int\<close> holds \<open>-2^31\<close>, and no pass is
  run, where a single pass would have written the four notes of the pattern.
\<close>

theorem song_fill_seq_event_phase_counterexample:
  "0 < m_length pattern_short
   \<and> 1 + c_div (trigger_length trigger_long - 1) (m_length pattern_short) = 2147483648
   \<and> narrow_int (1 + c_div (trigger_length trigger_long - 1) (m_length pattern_short))
       = - 2147483648
   \<and> song_fill_seq_event pattern_short trigger_long 0 [] = Inr (0, [])
   \<and> m_bytes (song_fill_seq_event_pass pattern_short trigger_long 0 replay_start)
       = [0, 0x90, 60, 100, 0x30, 0x80, 60, 0, 0x30, 0x90, 64, 100, 0x30, 0x80, 64, 0]"
  by code_simp

theorem song_fill_seq_event_phase_witness:
  "0 < m_length pattern_example
   \<and> - 2147483648 \<le> 1 + c_div (trigger_length trigger_example - 1) (m_length pattern_example)
   \<and> 1 + c_div (trigger_length trigger_example - 1) (m_length pattern_example) < 2147483648
   \<and> narrow_int (1 + c_div (trigger_length trigger_example - 1) (m_length pattern_example))
       = 1 + c_div (trigger_length trigger_example - 1) (m_length pattern_example)
   \<and> 0 \<le> offset trigger_example
   \<and> c_mod (offset trigger_example) (m_length pattern_example)
       = offset trigger_example mod m_length pattern_example
   \<and> 0 \<le> tick_start trigger_example
   \<and> c_mod (tick_start trigger_example) (m_length pattern_example)
       = tick_start trigger_example mod m_length pattern_example
   \<and> m_length pattern_example = 192 \<and> tick_start trigger_example = 100
   \<and> tick_end trigger_example = 300 \<and> offset trigger_example = 50
   \<and> (let st = foldl (\<lambda>st p. song_fill_seq_event_pass pattern_example trigger_example
                                 (50 + p * 192) st)
                   \<lparr>note_is_used = (\<lambda>i. 0), prev_timestamp = 0, m_bytes = []\<rparr> [0, 1, 2]
        in Inr (prev_timestamp st, m_bytes st))
       = (Inr (290, [0x81, 0x12, 0x90, 64, 100, 0x30, 0x80, 64, 0,
                     0x30, 0x90, 60, 100, 0x30, 0x80, 60, 0]) :: error + pulse \<times> byte list)"
proof -
  have h: "0 < m_length pattern_example" by (simp add: pattern_example_def)
  have r: "- 2147483648 \<le> 1 + c_div (trigger_length trigger_example - 1) (m_length pattern_example)
           \<and> 1 + c_div (trigger_length trigger_example - 1) (m_length pattern_example) < 2147483648"
    by code_simp
  have p: "0 \<le> offset trigger_example" "0 \<le> tick_start trigger_example"
    by (simp_all add: trigger_example_def)
  have c: "m_length pattern_example = 192 \<and> tick_start trigger_example = 100
           \<and> tick_end trigger_example = 300 \<and> offset trigger_example = 50"
    by (simp add: pattern_example_def trigger_example_def)
  have e: "song_fill_seq_event pattern_example trigger_example 0 [] =
             Inr (290, [0x81, 0x12, 0x90, 64, 100, 0x30, 0x80, 64, 0,
                        0x30, 0x90, 60, 100, 0x30, 0x80, 60, 0])"
    by code_simp
  note t = song_fill_seq_event_phase [OF h, of trigger_example 0 "[]"]
  from t r have n: "narrow_int (1 + c_div (trigger_length trigger_example - 1) (m_length pattern_example))
       = 1 + c_div (trigger_length trigger_example - 1) (m_length pattern_example)"
    by blast
  from t p have m: "c_mod (offset trigger_example) (m_length pattern_example)
       = offset trigger_example mod m_length pattern_example"
     "c_mod (tick_start trigger_example) (m_length pattern_example)
       = tick_start trigger_example mod m_length pattern_example"
    by blast+
  from t
  have "m_length pattern_example = 192 \<and> tick_start trigger_example = 100
          \<and> tick_end trigger_example = 300 \<and> offset trigger_example = 50 \<longrightarrow>
        song_fill_seq_event pattern_example trigger_example 0 [] =
          (let st = foldl (\<lambda>st p. song_fill_seq_event_pass pattern_example trigger_example
                                   (50 + p * 192) st)
                      \<lparr>note_is_used = (\<lambda>i. 0), prev_timestamp = 0, m_bytes = []\<rparr> [0, 1, 2]
           in Inr (prev_timestamp st, m_bytes st))"
    by blast
  with c have "song_fill_seq_event pattern_example trigger_example 0 [] =
          (let st = foldl (\<lambda>st p. song_fill_seq_event_pass pattern_example trigger_example
                                   (50 + p * 192) st)
                      \<lparr>note_is_used = (\<lambda>i. 0), prev_timestamp = 0, m_bytes = []\<rparr> [0, 1, 2]
           in Inr (prev_timestamp st, m_bytes st))"
    by blast
  from this [symmetric] e
  have "(let st = foldl (\<lambda>st p. song_fill_seq_event_pass pattern_example trigger_example
                                   (50 + p * 192) st)
                      \<lparr>note_is_used = (\<lambda>i. 0), prev_timestamp = 0, m_bytes = []\<rparr> [0, 1, 2]
           in Inr (prev_timestamp st, m_bytes st))
        = (Inr (290, [0x81, 0x12, 0x90, 64, 100, 0x30, 0x80, 64, 0,
                     0x30, 0x90, 60, 100, 0x30, 0x80, 60, 0]) :: error + pulse \<times> byte list)"
    by (rule trans)
  with h r n p m c show ?thesis by blast
qed


subsection \<open>The end tick of the exported track\<close>

lemma c_mod_neg: "a < 0 \<Longrightarrow> 0 < b \<Longrightarrow> c_mod a b = - ((- a) mod b)"
proof -
  assume a: "a < 0" and b: "0 < b"
  have "c_div a b = - ((- a) div b)" using a b by (simp add: c_div_def)
  then have "c_mod a b = a + ((- a) div b) * b" by (simp add: c_mod_def)
  also have "\<dots> = - ((- a) - ((- a) div b) * b)" by simp
  also have "(- a) - ((- a) div b) * b = (- a) mod b" by (rule minus_div_mult_eq_mod)
  finally show ?thesis .
qed

lemma c_mod_bounds:
  assumes "0 < b"
  shows "- b < c_mod a b \<and> c_mod a b < b"
proof (cases "0 \<le> a")
  case True
  then have "c_mod a b = a mod b" using assms by (rule c_mod_nonneg)
  then show ?thesis using assms by (simp add: order_less_le_trans [of "- b" 0])
next
  case False
  then have "c_mod a b = - ((- a) mod b)" using assms by (simp add: c_mod_neg)
  moreover have "0 \<le> (- a) mod b \<and> (- a) mod b < b" using assms by simp
  ultimately show ?thesis using assms by linarith
qed

lemma c_mod_cong:
  assumes "0 < b"
  shows "c_mod a b mod b = a mod b"
proof -
  have "c_mod a b = a + (- c_div a b) * b" by (simp add: c_mod_def)
  then show ?thesis by (simp only: mod_mult_self1)
qed

lemma seqend_ge:
  assumes "0 < measticks"
  shows "seqend \<le> song_fill_track_seqend seqend measticks"
  using assms c_mod_bounds [OF assms, of seqend]
  by (simp add: song_fill_track_seqend_def Let_def)

lemma seqend_mod:
  assumes "0 < measticks"
  shows "song_fill_track_seqend seqend measticks mod measticks = measticks - 1"
proof -
  let ?r = "c_mod seqend measticks"
  have last: "(measticks - 1) mod measticks = measticks - 1"
    using assms by (intro mod_pos_pos_trivial) simp_all
  show ?thesis
  proof (cases "?r = measticks - 1")
    case True
    then have "song_fill_track_seqend seqend measticks = seqend"
      using assms by (simp add: song_fill_track_seqend_def)
    moreover have "seqend mod measticks = ?r mod measticks"
      by (simp only: c_mod_cong [OF assms])
    ultimately show ?thesis using True last by simp
  next
    case False
    then have e: "song_fill_track_seqend seqend measticks = seqend + (measticks - ?r - 1)"
      using assms by (simp add: song_fill_track_seqend_def Let_def)
    have "seqend - ?r = c_div seqend measticks * measticks" by (simp add: c_mod_def)
    then have "seqend + (measticks - ?r - 1) = (measticks - 1) + c_div seqend measticks * measticks"
      by simp
    then have "(seqend + (measticks - ?r - 1)) mod measticks = (measticks - 1) mod measticks"
      by (simp only: mod_mult_self1)
    then show ?thesis using e last by simp
  qed
qed

lemma seqend_same:
  "c_mod seqend measticks = measticks - 1 \<Longrightarrow> song_fill_track_seqend seqend measticks = seqend"
  by (simp add: song_fill_track_seqend_def)

lemma seqend_nonneg:
  assumes "0 < measticks" "0 \<le> seqend"
  shows "c_mod (song_fill_track_seqend seqend measticks) measticks = measticks - 1"
    and "song_fill_track_seqend seqend measticks < seqend + measticks"
proof -
  have "0 \<le> song_fill_track_seqend seqend measticks"
    using seqend_ge [OF assms(1), of seqend] assms(2) by simp
  then have "c_mod (song_fill_track_seqend seqend measticks) measticks
               = song_fill_track_seqend seqend measticks mod measticks"
    using assms(1) by (rule c_mod_nonneg)
  then show "c_mod (song_fill_track_seqend seqend measticks) measticks = measticks - 1"
    by (simp only: seqend_mod [OF assms(1)])
  have "c_mod seqend measticks = seqend mod measticks" using assms(2,1) by (rule c_mod_nonneg)
  moreover have "- 1 < seqend mod measticks"
    using assms(1) pos_mod_sign [of measticks seqend] by linarith
  ultimately show "song_fill_track_seqend seqend measticks < seqend + measticks"
    using assms(1) by (simp add: song_fill_track_seqend_def Let_def)
qed

lemma song_fill_seq_trigger_bytes:
  "song_fill_seq_trigger x cfg s trig len prev bytes =
     fill_meta_track_end (len - prev)
       (fill_proprietary x cfg s
          (bytes @ put_seqspec c_triggers_ex 12 [] @ add_long 0 []
             @ add_long (word_of_int (tick_end trig)) [] @ add_long 0 []))"
proof -
  have 1: "put_seqspec c_triggers_ex 12 bytes = bytes @ put_seqspec c_triggers_ex 12 []"
    by (rule put_seqspec_append)
  have 2: "add_long v (bytes @ bs) = (bytes @ bs) @ add_long v []" for v bs
    by (rule add_long_append)
  have ds: "trigger_datasize c_triggers_ex = 12"
    by (simp add: trigger_datasize_def c_triggers_ex_def c_trig_transpose_def)
  show ?thesis
    by (simp only: song_fill_seq_trigger_def Let_def ds 1 2 append_assoc)
qed

text \<open>
  C10, as the code has it. In \<open>track::song_fill_track\<close>, for an exportable pattern
  whose ticks-per-measure value is positive, the end tick handed to
  \<open>song_fill_seq_trigger\<close> is the last trigger's \<open>tick_end\<close> moved up to the last
  tick of a measure: its remainder modulo the ticks per measure is the ticks per measure
  minus one, it is the \<open>tick_end\<close> itself when that already has this remainder, and
  it is never less than the \<open>tick_end\<close>. (For a \<open>tick_end\<close> that is not negative
  the remainder is the one the \<open>%\<close> operator gives, and the move is by less than one
  measure.) Only the end-of-track delta uses this tick: it is the rounded tick minus the
  last timestamp written. The flattened trigger record is written with the start 0, the
  last trigger's own \<open>tick_end\<close>, not rounded, and the offset 0.
\<close>

theorem song_fill_track_end_tick:
  assumes "0 < measures_to_ticks x s 1"
  shows "(let seqend = tick_end (last (m_triggers s));
              measticks = measures_to_ticks x s 1;
              rounded = song_fill_track_seqend seqend measticks
          in seqend \<le> rounded
             \<and> rounded mod measticks = measticks - 1
             \<and> (c_mod seqend measticks = measticks - 1 \<longrightarrow> rounded = seqend)
             \<and> (0 \<le> seqend \<longrightarrow>
                  c_mod rounded measticks = measticks - 1 \<and> rounded < seqend + measticks)
             \<and> (\<forall>last_ts b.
                  is_exportable s \<and>
                  song_fill_track_events s (m_triggers s) 0
                    (if standalone then fill_seq_name (m_name s) (fill_seq_number track [])
                     else []) = Inr (last_ts, b) \<longrightarrow>
                  song_fill_track x cfg s track standalone bytes =
                    Inr (True, song_fill_seq_trigger x cfg s (last (m_triggers s)) rounded last_ts b)
                  \<and> song_fill_seq_trigger x cfg s (last (m_triggers s)) rounded last_ts b =
                      fill_meta_track_end (rounded - last_ts)
                        (fill_proprietary x cfg s
                          (b @ put_seqspec c_triggers_ex 12 [] @ add_long 0 []
                             @ add_long (word_of_int seqend) [] @ add_long 0 []))))"
proof -
  let ?m = "measures_to_ticks x s 1"
  let ?e = "tick_end (last (m_triggers s))"
  have a: "?e \<le> song_fill_track_seqend ?e ?m" by (rule seqend_ge [OF assms])
  have b: "song_fill_track_seqend ?e ?m mod ?m = ?m - 1" by (rule seqend_mod [OF assms])
  have c: "c_mod ?e ?m = ?m - 1 \<longrightarrow> song_fill_track_seqend ?e ?m = ?e"
    by (simp add: seqend_same)
  have d: "0 \<le> ?e \<longrightarrow> c_mod (song_fill_track_seqend ?e ?m) ?m = ?m - 1
             \<and> song_fill_track_seqend ?e ?m < ?e + ?m"
    using seqend_nonneg [OF assms] by blast
  have e: "\<forall>last_ts b.
                  is_exportable s \<and>
                  song_fill_track_events s (m_triggers s) 0
                    (if standalone then fill_seq_name (m_name s) (fill_seq_number track [])
                     else []) = Inr (last_ts, b) \<longrightarrow>
                  song_fill_track x cfg s track standalone bytes =
                    Inr (True, song_fill_seq_trigger x cfg s (last (m_triggers s))
                                 (song_fill_track_seqend ?e ?m) last_ts b)
                  \<and> song_fill_seq_trigger x cfg s (last (m_triggers s))
                        (song_fill_track_seqend ?e ?m) last_ts b =
                      fill_meta_track_end (song_fill_track_seqend ?e ?m - last_ts)
                        (fill_proprietary x cfg s
                          (b @ put_seqspec c_triggers_ex 12 [] @ add_long 0 []
                             @ add_long (word_of_int ?e) [] @ add_long 0 []))"
    by (simp add: song_fill_track_def Let_def clear_def song_fill_seq_trigger_bytes)
  from a b c d e show ?thesis unfolding Let_def by (intro conjI)
qed

text \<open>
  An instance: for the trigger ending at tick 300 in measures of 192 ticks the rounded
  end tick is 383, but the trigger record of the exported track ends at 300; 383 enters
  the end-of-track delta only (383 - 290 = 93).
\<close>

theorem song_fill_track_end_tick_counterexample:
  "is_exportable pattern_example
   \<and> tick_end (last (m_triggers pattern_example)) = 300
   \<and> song_fill_track_seqend 300 (measures_to_ticks extern_example pattern_example 1) = 383
   \<and> song_fill_track extern_example settings_example pattern_example 0 False [] =
        Inr (True, [0x81, 0x12, 0x90, 64, 100, 0x30, 0x80, 64, 0, 0x30, 0x90, 60, 100,
                    0x30, 0x80, 60, 0]
                   @ put_seqspec c_triggers_ex 12 []
                   @ add_long 0 [] @ add_long 300 [] @ add_long 0 []
                   @ fill_proprietary extern_example settings_example pattern_example []
                   @ fill_meta_track_end (383 - 290) [])
   \<and> add_long 300 [] = [0, 0, 1, 44]
   \<and> add_long 383 [] = [0, 0, 1, 127]
   \<and> fill_meta_track_end (383 - 290) [] = [93, 0xFF, 0x2F, 0]"
  by code_simp

theorem song_fill_track_end_tick_witness:
  "0 < measures_to_ticks extern_example pattern_example 1
   \<and> tick_end (last (m_triggers pattern_example)) = 300
   \<and> measures_to_ticks extern_example pattern_example 1 = 192
   \<and> song_fill_track_seqend 300 192 = 383
   \<and> (300 :: int) \<le> 383 \<and> (383 :: int) mod 192 = 192 - 1
   \<and> (0 :: int) \<le> 300 \<and> c_mod 383 192 = 192 - 1 \<and> (383 :: int) < 300 + 192
   \<and> is_exportable pattern_example
   \<and> song_fill_track_events pattern_example (m_triggers pattern_example) 0 [] =
        Inr (290, [0x81, 0x12, 0x90, 64, 100, 0x30, 0x80, 64, 0, 0x30, 0x90, 60, 100,
                   0x30, 0x80, 60, 0])
   \<and> song_fill_track extern_example settings_example pattern_example 0 False [] =
        Inr (True, song_fill_seq_trigger extern_example settings_example pattern_example
                     (last (m_triggers pattern_example)) 383 290
                     [0x81, 0x12, 0x90, 64, 100, 0x30, 0x80, 64, 0, 0x30, 0x90, 60, 100,
                      0x30, 0x80, 60, 0])
   \<and> song_fill_track extern_example settings_example pattern_example 0 False [] =
        Inr (True, [0x81, 0x12, 0x90, 64, 100, 0x30, 0x80, 64, 0, 0x30, 0x90, 60, 100,
                    0x30, 0x80, 60, 0,
                    0, 0xFF, 0x7F, 16, 0x24, 0x24, 0, 8, 0, 0, 0, 0, 0, 0, 1, 44, 0, 0, 0, 0,
                    0, 0xFF, 0x7F, 5, 0x24, 0x24, 0, 1, 0,
                    0, 0xFF, 0x7F, 6, 0x24, 0x24, 0, 6, 4, 4,
                    0, 0xFF, 0x7F, 5, 0x24, 0x24, 0, 2, 0,
                    0, 0xFF, 0x7F, 5, 0x24, 0x24, 0, 20, 1,
                    93, 0xFF, 0x2F, 0])
   \<and> 0 < measures_to_ticks extern_example pattern_end383 1
   \<and> tick_end (last (m_triggers pattern_end383)) = 383
   \<and> measures_to_ticks extern_example pattern_end383 1 = 192
   \<and> c_mod 383 192 = 192 - 1
   \<and> song_fill_track_seqend 383 192 = 383"
proof -
  let ?ev = "[0x81, 0x12, 0x90, 64, 100, 0x30, 0x80, 64, 0, 0x30, 0x90, 60, 100,
              0x30, 0x80, 60, 0] :: byte list"
  have h: "0 < measures_to_ticks extern_example pattern_example 1" by code_simp
  have t: "tick_end (last (m_triggers pattern_example)) = 300" by code_simp
  have m: "measures_to_ticks extern_example pattern_example 1 = 192" by code_simp
  have r: "song_fill_track_seqend 300 192 = 383" by code_simp
  have z: "(0 :: int) \<le> 300" by simp
  have x: "is_exportable pattern_example" by code_simp
  have ev: "song_fill_track_events pattern_example (m_triggers pattern_example) 0 [] =
              Inr (290, ?ev)"
    by code_simp
  have f: "song_fill_track extern_example settings_example pattern_example 0 False [] =
        Inr (True, [0x81, 0x12, 0x90, 64, 100, 0x30, 0x80, 64, 0, 0x30, 0x90, 60, 100,
                    0x30, 0x80, 60, 0,
                    0, 0xFF, 0x7F, 16, 0x24, 0x24, 0, 8, 0, 0, 0, 0, 0, 0, 1, 44, 0, 0, 0, 0,
                    0, 0xFF, 0x7F, 5, 0x24, 0x24, 0, 1, 0,
                    0, 0xFF, 0x7F, 6, 0x24, 0x24, 0, 6, 4, 4,
                    0, 0xFF, 0x7F, 5, 0x24, 0x24, 0, 2, 0,
                    0, 0xFF, 0x7F, 5, 0x24, 0x24, 0, 20, 1,
                    93, 0xFF, 0x2F, 0])"
    by code_simp
  note thm1 = song_fill_track_end_tick [OF h, of False 0 settings_example "[]",
                unfolded Let_def if_False t m r]
  from thm1 have a: "(300 :: int) \<le> 383 \<and> (383 :: int) mod 192 = 192 - 1"
    by blast
  from thm1 z have b: "c_mod 383 192 = 192 - 1 \<and> (383 :: int) < 300 + 192"
    by blast
  from thm1 x ev
  have c: "song_fill_track extern_example settings_example pattern_example 0 False [] =
        Inr (True, song_fill_seq_trigger extern_example settings_example pattern_example
                     (last (m_triggers pattern_example)) 383 290 ?ev)"
    by blast
  have h': "0 < measures_to_ticks extern_example pattern_end383 1" by code_simp
  have t': "tick_end (last (m_triggers pattern_end383)) = 383" by code_simp
  have m': "measures_to_ticks extern_example pattern_end383 1 = 192" by code_simp
  have c': "c_mod 383 192 = 192 - 1" by code_simp
  note thm2 = song_fill_track_end_tick [OF h', of False 0 settings_example "[]",
                unfolded Let_def if_False t' m']
  from thm2 c' have d: "song_fill_track_seqend 383 192 = 383"
    by blast
  from h t m r a z b x ev c f h' t' m' c' d show ?thesis by blast
qed


subsection \<open>Patterns that are not exportable\<close>

text \<open>
  C6. For every pattern that is song-muted or has no trigger,
  \<open>track::song_fill_track\<close> returns false and leaves the byte container as it was;
  and it returns false in no other case, so the returned boolean tells "not exportable"
  apart from every other outcome.
\<close>

theorem song_fill_track_not_exportable:
  "(m_song_mute s \<or> m_triggers s = [] \<longrightarrow>
      \<not> is_exportable s
      \<and> song_fill_track x cfg s track standalone bytes = Inr (False, bytes))
   \<and> (\<not> (m_song_mute s \<or> m_triggers s = []) \<longrightarrow>
      is_exportable s
      \<and> (\<forall>b. song_fill_track x cfg s track standalone bytes \<noteq> Inr (False, b)))"
  by (auto simp: song_fill_track_def is_exportable_def get_song_mute_def trigger_count_def
      Let_def split: sum.splits prod.splits)

theorem song_fill_track_not_exportable_witness:
  "m_song_mute (pattern_example\<lparr>m_song_mute := True\<rparr>)
   \<and> song_fill_track extern_example settings_example (pattern_example\<lparr>m_song_mute := True\<rparr>)
         0 True [1, 2, 3] = Inr (False, [1, 2, 3])
   \<and> m_triggers (pattern_example\<lparr>m_triggers := []\<rparr>) = []
   \<and> song_fill_track extern_example settings_example (pattern_example\<lparr>m_triggers := []\<rparr>)
         0 True [1, 2, 3] = Inr (False, [1, 2, 3])
   \<and> \<not> m_song_mute pattern_example \<and> m_triggers pattern_example \<noteq> []
   \<and> song_fill_track extern_example settings_example pattern_example 0 False [1, 2, 3]
       \<noteq> Inr (False, [1, 2, 3])"
proof -
  have a: "m_song_mute (pattern_example\<lparr>m_song_mute := True\<rparr>)" by simp
  have b: "m_triggers (pattern_example\<lparr>m_triggers := []\<rparr>) = []" by simp
  have c: "\<not> m_song_mute pattern_example \<and> m_triggers pattern_example \<noteq> []"
    by (simp add: pattern_example_def)
  from a song_fill_track_not_exportable
         [of "pattern_example\<lparr>m_song_mute := True\<rparr>" extern_example settings_example 0 True "[1, 2, 3]"]
  have 1: "song_fill_track extern_example settings_example (pattern_example\<lparr>m_song_mute := True\<rparr>)
         0 True [1, 2, 3] = Inr (False, [1, 2, 3])" by blast
  from b song_fill_track_not_exportable
         [of "pattern_example\<lparr>m_triggers := []\<rparr>" extern_example settings_example 0 True "[1, 2, 3]"]
  have 2: "song_fill_track extern_example settings_example (pattern_example\<lparr>m_triggers := []\<rparr>)
         0 True [1, 2, 3] = Inr (False, [1, 2, 3])" by blast
  from c song_fill_track_not_exportable
         [of pattern_example extern_example settings_example 0 False "[1, 2, 3]"]
  have 3: "song_fill_track extern_example settings_example pattern_example 0 False [1, 2, 3]
       \<noteq> Inr (False, [1, 2, 3])" by blast
  from a b c 1 2 3 show ?thesis by blast
qed

subsection \<open>A pattern length of zero\<close>

lemma song_fill_seq_event_zero_length:
  "m_length s = 0 \<Longrightarrow> song_fill_seq_event s trig prev bytes = Inl DivisionByZero"
  by (simp add: song_fill_seq_event_def get_length_def)

lemma song_fill_track_zero_length:
  assumes "is_exportable s" "m_length s = 0"
  shows "song_fill_track x cfg s track standalone bytes = Inl DivisionByZero"
proof -
  have "m_triggers s \<noteq> []" using assms(1) by (auto simp: is_exportable_def trigger_count_def)
  then obtain t ts where "m_triggers s = t # ts" by (cases "m_triggers s") auto
  then show ?thesis
    using assms by (simp add: song_fill_track_def Let_def song_fill_seq_event_zero_length)
qed

text \<open>
  C5. \<open>sequence::mod_last_tick\<close> tests the length before it takes the remainder, but
  \<open>track::song_fill_seq_event\<close> does not: for an exportable pattern of length zero,
  the song export evaluates \<open>trig.offset() % len\<close> with \<open>len = 0\<close>.
\<close>

theorem song_fill_track_length_zero:
  "is_exportable (pattern_example\<lparr>m_length := 0\<rparr>)
   \<and> song_fill_seq_event (pattern_example\<lparr>m_length := 0\<rparr>) trigger_example 0 [] = Inl DivisionByZero
   \<and> song_fill_track extern_example settings_example (pattern_example\<lparr>m_length := 0\<rparr>) 0 False []
       = Inl DivisionByZero
   \<and> mod_last_tick (pattern_example\<lparr>m_length := 0, m_last_tick := 7\<rparr>) = 7"
  by code_simp



section \<open>Writing one event\<close>











section \<open>Regular export\<close>

lemma fill_triggers_concat:
  "fill_triggers x transtriggers trigs bytes =
     bytes @ concat (map (\<lambda>t. add_long (word_of_int (tick_start t)) []
                              @ add_long (word_of_int (tick_end t)) []
                              @ add_long (word_of_int (offset t)) []
                              @ (if transtriggers then [transpose_byte x t] else [])) trigs)"
proof (induction trigs arbitrary: bytes)
  case Nil
  show ?case by simp
next
  case (Cons t trigs)
  have 1: "add_long v (bs :: byte list) = bs @ add_long v []" for v bs
    by (rule add_long_append)
  have "fill_triggers x transtriggers (t # trigs) bytes =
          fill_triggers x transtriggers trigs
            (bytes @ add_long (word_of_int (tick_start t)) []
                   @ add_long (word_of_int (tick_end t)) []
                   @ add_long (word_of_int (offset t)) []
                   @ (if transtriggers then [transpose_byte x t] else []))"
    by (simp add: Let_def add_byte_def put_def 1 [of _ "bytes"] 1 [of _ "bytes @ _"])
  then show ?case by (simp add: Cons.IH)
qed

lemma fill_meta_track_end_bytes:
  "fill_meta_track_end deltatime bytes =
     bytes @ add_varinum (word_of_int deltatime :: ulong) [] @ [0xFF, 0x2F, 0x00]"
proof -
  have z: "add_varinum (0 :: ulong) [] = [0]" by code_simp
  have 1: "add_varinum (word_of_int deltatime :: ulong) bytes
             = bytes @ add_varinum (word_of_int deltatime :: ulong) []"
    by (rule add_varinum_append)
  have 2: "add_varinum (0 :: ulong) bs = bs @ [0]" for bs
    using add_varinum_append [of "0 :: ulong" bs] by (simp only: z)
  show ?thesis
    by (simp add: fill_meta_track_end_def put_meta_def Let_def put_def 1 2
        EVENT_MIDI_META_def EVENT_META_END_OF_TRACK_def)
qed

lemma fill_events_app:
  "fill_events s evl prev bytes = (False, prev', bytes') \<Longrightarrow>
   fill_events s (evl @ rest) prev bytes = fill_events s rest prev' bytes'"
  by (induction evl arbitrary: prev bytes) (auto simp: Let_def split: if_splits)

lemma fill_seqspec_true:
  "fill x cfg s track True bytes =
     (case fill_events s (eventlist_sort (m_events s)) 0
             (fill_seq_name (m_name s) (fill_seq_number track bytes)) of
        (aborted, prevtimestamp, b) \<Rightarrow>
          let variant = (\<not> save_old_triggers cfg \<and> any_transposed (m_triggers s));
              tag = (if variant then c_trig_transpose else c_triggers_ex);
              datasize = int (length (m_triggers s)) * (if variant then 13 else 12)
          in fill_meta_track_end
               (if m_length s < prevtimestamp then 0 else m_length s - prevtimestamp)
               (fill_proprietary x cfg s
                  (b @ put_seqspec tag datasize []
                     @ concat (map (\<lambda>t. add_long (word_of_int (tick_start t)) []
                                          @ add_long (word_of_int (tick_end t)) []
                                          @ add_long (word_of_int (offset t)) []
                                          @ (if variant then [transpose_byte x t] else []))
                                (m_triggers s)))))"
proof -
  obtain aborted prev b where
    fe: "fill_events s (eventlist_sort (m_events s)) 0
           (fill_seq_name (m_name s) (fill_seq_number track bytes)) = (aborted, prev, b)"
    by (cases "fill_events s (eventlist_sort (m_events s)) 0
                 (fill_seq_name (m_name s) (fill_seq_number track bytes))") auto
  have 1: "put_seqspec t n b = b @ put_seqspec t n []" for t n
    by (rule put_seqspec_append)
  have ne: "c_triggers_ex \<noteq> c_trig_transpose"
    by (simp add: c_triggers_ex_def c_trig_transpose_def)
  show ?thesis
    by (simp add: fill_def Let_def fe fill_triggers_concat 1 any_trigger_transposed_def
        triggers_datasize_def trigger_datasize_def get_length_def ne)
qed

lemma fill_seqspec_false:
  "fill x cfg s track False bytes =
     (case fill_events s (eventlist_sort (m_events s)) 0 (fill_seq_name (m_name s) bytes) of
        (aborted, prevtimestamp, b) \<Rightarrow>
          fill_meta_track_end
            (if m_length s < prevtimestamp then 0 else m_length s - prevtimestamp) b)"
  by (simp add: fill_def Let_def get_length_def split: prod.splits)

subsection \<open>The trigger block\<close>

text \<open>
  C8. In \<open>track::fill\<close> with SeqSpec output, the tag of the trigger block is chosen
  once, before the triggers are written: \<open>c_trig_transpose\<close> if and only if saving
  old-style triggers is not configured and some trigger has a transposition that is not
  zero, \<open>c_triggers_ex\<close> otherwise. Every trigger of the list is then written under
  that one variant: start, end and offset as three long values, followed by the
  transposition byte under the transpose variant only (13 bytes a trigger, 12 under the
  other).
\<close>

theorem fill_trigger_variant:
  "(case fill_events s (eventlist_sort (m_events s)) 0
           (fill_seq_name (m_name s) (fill_seq_number track bytes)) of
      (aborted, prevtimestamp, b) \<Rightarrow>
        let variant = (\<not> save_old_triggers cfg \<and> (\<exists>t \<in> set (m_triggers s). transpose_trig t \<noteq> 0));
            tag = (if variant then c_trig_transpose else c_triggers_ex);
            datasize = int (length (m_triggers s)) * (if variant then 13 else 12)
        in fill x cfg s track True bytes =
             fill_meta_track_end
               (if m_length s < prevtimestamp then 0 else m_length s - prevtimestamp)
               (fill_proprietary x cfg s
                  (b @ put_seqspec tag datasize []
                     @ concat (map (\<lambda>t. add_long (word_of_int (tick_start t)) []
                                          @ add_long (word_of_int (tick_end t)) []
                                          @ add_long (word_of_int (offset t)) []
                                          @ (if variant then [transpose_byte x t] else []))
                                (m_triggers s)))))
   \<and> (\<forall>t v. length (add_long (word_of_int (tick_start t)) []
                      @ add_long (word_of_int (tick_end t)) []
                      @ add_long (word_of_int (offset t)) []
                      @ (if v then [transpose_byte x t] else [])) = (if v then 13 else 12))"
proof -
  have at: "any_transposed (m_triggers s) \<longleftrightarrow> (\<exists>t \<in> set (m_triggers s). transpose_trig t \<noteq> 0)"
    by (simp add: any_transposed_def list_ex_iff transposed_def)
  have len: "length (add_long v []) = 4" for v
    by (simp add: add_long_def put_def)
  show ?thesis
    by (simp add: fill_seqspec_true at len Let_def split: prod.splits)
qed

theorem fill_trigger_variant_witness:
  "fill extern_example settings_example pattern_transposed 0 True [] =
     [0, 0xFF, 0, 2, 0, 0, 0, 0xFF, 3, 1, 0x41,
      0, 0xFF, 0x7F, 30, 0x24, 0x24, 0, 0x20,
      0, 0, 0, 100, 0, 0, 1, 44, 0, 0, 0, 50, 0x40,
      0, 0, 1, 144, 0, 0, 2, 79, 0, 0, 0, 16, 0x43,
      0, 0xFF, 0x7F, 5, 0x24, 0x24, 0, 1, 0,
      0, 0xFF, 0x7F, 6, 0x24, 0x24, 0, 6, 4, 4,
      0, 0xFF, 0x7F, 5, 0x24, 0x24, 0, 2, 0,
      0, 0xFF, 0x7F, 5, 0x24, 0x24, 0, 0x14, 1,
      0x81, 0x40, 0xFF, 0x2F, 0]
   \<and> fill extern_example (settings_example\<lparr>save_old_triggers := True\<rparr>) pattern_transposed 0 True [] =
     [0, 0xFF, 0, 2, 0, 0, 0, 0xFF, 3, 1, 0x41,
      0, 0xFF, 0x7F, 28, 0x24, 0x24, 0, 0x08,
      0, 0, 0, 100, 0, 0, 1, 44, 0, 0, 0, 50,
      0, 0, 1, 144, 0, 0, 2, 79, 0, 0, 0, 16,
      0, 0xFF, 0x7F, 5, 0x24, 0x24, 0, 1, 0,
      0, 0xFF, 0x7F, 6, 0x24, 0x24, 0, 6, 4, 4,
      0, 0xFF, 0x7F, 5, 0x24, 0x24, 0, 2, 0,
      0, 0xFF, 0x7F, 5, 0x24, 0x24, 0, 0x14, 1,
      0x81, 0x40, 0xFF, 0x2F, 0]
   \<and> length (add_long (word_of_int (tick_start trigger_example)) []
              @ add_long (word_of_int (tick_end trigger_example)) []
              @ add_long (word_of_int (offset trigger_example)) []
              @ [transpose_byte extern_example trigger_example]) = 13"
proof -
  have a: "fill extern_example settings_example pattern_transposed 0 True [] =
     [0, 0xFF, 0, 2, 0, 0, 0, 0xFF, 3, 1, 0x41,
      0, 0xFF, 0x7F, 30, 0x24, 0x24, 0, 0x20,
      0, 0, 0, 100, 0, 0, 1, 44, 0, 0, 0, 50, 0x40,
      0, 0, 1, 144, 0, 0, 2, 79, 0, 0, 0, 16, 0x43,
      0, 0xFF, 0x7F, 5, 0x24, 0x24, 0, 1, 0,
      0, 0xFF, 0x7F, 6, 0x24, 0x24, 0, 6, 4, 4,
      0, 0xFF, 0x7F, 5, 0x24, 0x24, 0, 2, 0,
      0, 0xFF, 0x7F, 5, 0x24, 0x24, 0, 0x14, 1,
      0x81, 0x40, 0xFF, 0x2F, 0]"
    by code_simp
  have b: "fill extern_example (settings_example\<lparr>save_old_triggers := True\<rparr>) pattern_transposed 0 True [] =
     [0, 0xFF, 0, 2, 0, 0, 0, 0xFF, 3, 1, 0x41,
      0, 0xFF, 0x7F, 28, 0x24, 0x24, 0, 0x08,
      0, 0, 0, 100, 0, 0, 1, 44, 0, 0, 0, 50,
      0, 0, 1, 144, 0, 0, 2, 79, 0, 0, 0, 16,
      0, 0xFF, 0x7F, 5, 0x24, 0x24, 0, 1, 0,
      0, 0xFF, 0x7F, 6, 0x24, 0x24, 0, 6, 4, 4,
      0, 0xFF, 0x7F, 5, 0x24, 0x24, 0, 2, 0,
      0, 0xFF, 0x7F, 5, 0x24, 0x24, 0, 0x14, 1,
      0x81, 0x40, 0xFF, 0x2F, 0]"
    by code_simp
  from fill_trigger_variant [where s = pattern_transposed and x = extern_example]
  have "\<forall>t v. length (add_long (word_of_int (tick_start t)) []
                      @ add_long (word_of_int (tick_end t)) []
                      @ add_long (word_of_int (offset t)) []
                      @ (if v then [transpose_byte extern_example t] else [])) = (if v then 13 else 12)"
    by (rule conjunct2)
  then have "length (add_long (word_of_int (tick_start trigger_example)) []
                      @ add_long (word_of_int (tick_end trigger_example)) []
                      @ add_long (word_of_int (offset trigger_example)) []
                      @ (if True then [transpose_byte extern_example trigger_example] else []))
              = (if True then 13 else 12)"
    by blast
  then have c: "length (add_long (word_of_int (tick_start trigger_example)) []
              @ add_long (word_of_int (tick_end trigger_example)) []
              @ add_long (word_of_int (offset trigger_example)) []
              @ [transpose_byte extern_example trigger_example]) = 13"
    by (simp only: if_True)
  from a b c show ?thesis by (intro conjI)
qed


subsection \<open>A negative delta-time\<close>

text \<open>
  C2, as the code has it. When \<open>track::fill\<close> meets an event whose delta-time is
  negative, it prints its message and leaves the event loop: that event and the ones
  after it in the sorted list are not written. The function then goes on as it always
  does: with SeqSpec output the trigger block and the blocks of \<open>fill_proprietary\<close>
  are appended, and in both modes the end-of-track event \<open>FF 2F 00\<close> closes the
  track, after a delta-time of the pattern length less the last timestamp written (0 if
  that would be negative).
\<close>

theorem fill_negative_delta:
  assumes sorted: "eventlist_sort (m_events s) = evl @ e # rest"
      and before: "fill_events s evl 0
                     (fill_seq_name (m_name s)
                        (if doseqspec then fill_seq_number track bytes else bytes))
                   = (False, prev, b)"
      and negative: "timestamp e - prev < 0"
  shows "fill_events s (eventlist_sort (m_events s)) 0
           (fill_seq_name (m_name s) (if doseqspec then fill_seq_number track bytes else bytes))
         = (True, prev, b)
       \<and> fill x cfg s track doseqspec bytes =
           (if doseqspec
            then
              let variant = (\<not> save_old_triggers cfg \<and> any_transposed (m_triggers s));
                  tag = (if variant then c_trig_transpose else c_triggers_ex);
                  datasize = int (length (m_triggers s)) * (if variant then 13 else 12)
              in fill_proprietary x cfg s
                   (b @ put_seqspec tag datasize []
                      @ concat (map (\<lambda>t. add_long (word_of_int (tick_start t)) []
                                           @ add_long (word_of_int (tick_end t)) []
                                           @ add_long (word_of_int (offset t)) []
                                           @ (if variant then [transpose_byte x t] else []))
                                 (m_triggers s)))
            else b)
           @ add_varinum
               (word_of_int (if m_length s < prev then 0 else m_length s - prev) :: ulong) []
           @ [0xFF, 0x2F, 0x00]"
proof -
  let ?hdr = "fill_seq_name (m_name s) (if doseqspec then fill_seq_number track bytes else bytes)"
  have "fill_events s (evl @ e # rest) 0 ?hdr = fill_events s (e # rest) prev b"
    by (rule fill_events_app [OF before])
  also have "\<dots> = (True, prev, b)" using negative by (simp add: Let_def)
  finally have fe: "fill_events s (eventlist_sort (m_events s)) 0 ?hdr = (True, prev, b)"
    by (simp only: sorted)
  show ?thesis
  proof (cases doseqspec)
    case True
    with fe show ?thesis
      by (simp add: fill_seqspec_true fill_meta_track_end_bytes Let_def)
  next
    case False
    with fe show ?thesis
      by (simp add: fill_seqspec_false fill_meta_track_end_bytes)
  qed
qed

theorem fill_negative_delta_counterexample:
  "fill_events pattern_negative (eventlist_sort (m_events pattern_negative)) 0
      (fill_seq_name (m_name pattern_negative) []) = (True, 0, [0, 0xFF, 3, 1, 0x41])
   \<and> fill extern_example settings_example pattern_negative 0 False [] =
       [0, 0xFF, 3, 1, 0x41, 0x81, 0x40, 0xFF, 0x2F, 0]
   \<and> fill_events pattern_negative (eventlist_sort (m_events pattern_negative)) 0
      (fill_seq_name (m_name pattern_negative) (fill_seq_number 0 [])) =
       (True, 0, [0, 0xFF, 0, 2, 0, 0, 0, 0xFF, 3, 1, 0x41])
   \<and> fill extern_example settings_example pattern_negative 0 True [] =
       [0, 0xFF, 0, 2, 0, 0, 0, 0xFF, 3, 1, 0x41,
        0, 0xFF, 0x7F, 16, 0x24, 0x24, 0, 8, 0, 0, 0, 100, 0, 0, 1, 44, 0, 0, 0, 50,
        0, 0xFF, 0x7F, 5, 0x24, 0x24, 0, 1, 0,
        0, 0xFF, 0x7F, 6, 0x24, 0x24, 0, 6, 4, 4,
        0, 0xFF, 0x7F, 5, 0x24, 0x24, 0, 2, 0,
        0, 0xFF, 0x7F, 5, 0x24, 0x24, 0, 0x14, 1,
        0x81, 0x40, 0xFF, 0x2F, 0]
   \<and> fill extern_example settings_example pattern_negative 0 False [] \<noteq>
       snd (snd (fill_events pattern_negative (eventlist_sort (m_events pattern_negative)) 0
                   (fill_seq_name (m_name pattern_negative) [])))
   \<and> fill extern_example settings_example pattern_negative 0 True [] \<noteq>
       snd (snd (fill_events pattern_negative (eventlist_sort (m_events pattern_negative)) 0
                   (fill_seq_name (m_name pattern_negative) (fill_seq_number 0 []))))"
  by code_simp

theorem fill_negative_delta_witness:
  "eventlist_sort (m_events pattern_negative) =
     [] @ note_event (- 1) 0x90 60 100 # [note_event 10 0x80 60 0]
   \<and> fill_events pattern_negative [] 0 (fill_seq_name (m_name pattern_negative) [])
       = (False, 0, [0, 0xFF, 3, 1, 0x41])
   \<and> timestamp (note_event (- 1) 0x90 60 100) - 0 < 0
   \<and> fill extern_example settings_example pattern_negative 0 False [] =
       [0, 0xFF, 3, 1, 0x41] @ add_varinum (word_of_int 192 :: ulong) [] @ [0xFF, 0x2F, 0x00]"
proof -
  have a: "eventlist_sort (m_events pattern_negative) =
     [] @ note_event (- 1) 0x90 60 100 # [note_event 10 0x80 60 0]"
    by code_simp
  have b: "fill_events pattern_negative [] 0
             (fill_seq_name (m_name pattern_negative) (if False then fill_seq_number 0 [] else []))
       = (False, 0, [0, 0xFF, 3, 1, 0x41])"
    by code_simp
  have c: "timestamp (note_event (- 1) 0x90 60 100) - 0 < 0" by code_simp
  have l: "m_length pattern_negative = 192" by code_simp
  from fill_negative_delta [OF a b c, where x = extern_example and cfg = settings_example]
  have "fill extern_example settings_example pattern_negative 0 False [] =
          (if False then undefined else [0, 0xFF, 3, 1, 0x41])
           @ add_varinum
               (word_of_int (if m_length pattern_negative < 0 then 0
                             else m_length pattern_negative - 0) :: ulong) []
           @ [0xFF, 0x2F, 0x00]"
    by simp
  then have d: "fill extern_example settings_example pattern_negative 0 False [] =
       [0, 0xFF, 3, 1, 0x41] @ add_varinum (word_of_int 192 :: ulong) [] @ [0xFF, 0x2F, 0x00]"
    by (simp add: l)
  from b have b': "fill_events pattern_negative [] 0 (fill_seq_name (m_name pattern_negative) [])
       = (False, 0, [0, 0xFF, 3, 1, 0x41])" by simp
  from a b' c d show ?thesis by (intro conjI)
qed


section \<open>The SeqSpec section\<close>

lemma put_after_seqspec: "put k (put_seqspec t n bs) = bs @ put_seqspec t n [] @ [k]"
  using put_seqspec_append [of t n bs] by (simp add: put_def)

lemma add_long_after_seqspec:
  "add_long v (put_seqspec t n bs) = bs @ put_seqspec t n [] @ add_long v []"
  using put_seqspec_append [of t n bs] add_long_append [of v "put_seqspec t n bs"] by simp

lemma add_short_after_seqspec:
  "add_short v (put_seqspec t n bs) = bs @ put_seqspec t n [] @ add_short v []"
  using put_seqspec_append [of t n bs] add_short_append [of v "put_seqspec t n bs"] by simp

lemma put_after_append: "put k (xs @ ys) = xs @ ys @ [k]"
  by (simp add: put_def)

lemma if_append_both: "(if c then xs @ ys else xs @ zs) = xs @ (if c then ys else zs)"
  by simp

lemma if_append_then: "(if c then xs @ ys else xs) = xs @ (if c then ys else [])"
  by simp

lemma if_cons_both: "(if c then a # ys else a # zs) = a # (if c then ys else zs)"
  by simp

lemma fill_proprietary_bytes:
  "fill_proprietary x cfg s bytes =
     bytes
     @ put_seqspec (c_midibus x) 1 [] @ [seq_midi_bus s]
     @ put_seqspec (c_timesig x) 2 []
         @ [word_of_int (get_beats_per_bar s), word_of_int (get_beat_width s)]
     @ put_seqspec (c_midichannel x) 1 [] @ [seq_midi_channel s]
     @ (if \<not> global_seq_feature cfg
        then (if musical_key s \<noteq> c_key_of_C x
              then put_seqspec (c_musickey x) 1 [] @ [musical_key s] else [])
           @ (if musical_scale s \<noteq> c_scales_off x
              then put_seqspec (c_musicscale x) 1 [] @ [musical_scale s] else [])
           @ (if seq_valid x (background_sequence s)
              then put_seqspec (c_backsequence x) 4 []
                     @ add_long (word_of_int (background_sequence s)) [] else [])
        else [])
     @ put_seqspec (c_transpose x) 1 [] @ [of_bool (transposable s)]
     @ (if color s \<noteq> c_seq_color_none
        then put_seqspec (c_seq_color x) 1 [] @ [word_of_int (color s)] else [])
     @ (if SEQ66_SEQUENCE_EDIT_MODE x \<and> m_seq_edit_mode s \<noteq> editmode_note
        then put_seqspec (c_seq_edit_mode x) 1 [] @ [edit_mode_byte s] else [])
     @ (if loop_count_max s > 0
        then put_seqspec (c_seq_loopcount x) 2 [] @ add_short (word_of_int (loop_count_max s)) []
        else [])"
  unfolding fill_proprietary_def Let_def
  by (simp only: put_after_seqspec add_long_after_seqspec add_short_after_seqspec
      put_after_append if_append_both if_append_then if_cons_both append_assoc append_Cons append_Nil)

text \<open>
  C9, as the code has it. \<open>track::fill_proprietary\<close> always writes the buss, the
  time-signature, the channel and the transpose block, whatever their values. The key,
  scale and background-sequence blocks are written only when the sequence features are
  not saved globally and, respectively, the key is not \<open>c_key_of_C\<close>, the scale is
  not \<open>c_scales_off\<close>, the background sequence is a valid sequence number; the color
  block only when the color is not \<open>c_seq_color_none\<close>; the edit-mode block only when
  \<open>SEQ66_SEQUENCE_EDIT_MODE\<close> is compiled in and the edit mode is not note; the
  loop-count block only when the loop count is positive. A track whose key, scale,
  background sequence, color and loop count are at these defaults, and whose edit mode is
  note or is not compiled in, gets the buss, time-signature, channel and transpose blocks
  and no other; with the edit mode compiled in and not note it gets these four and the
  edit-mode block.
\<close>

theorem fill_proprietary_blocks:
  "fill_proprietary x cfg s bytes =
     bytes
     @ put_seqspec (c_midibus x) 1 [] @ [seq_midi_bus s]
     @ put_seqspec (c_timesig x) 2 []
         @ [word_of_int (get_beats_per_bar s), word_of_int (get_beat_width s)]
     @ put_seqspec (c_midichannel x) 1 [] @ [seq_midi_channel s]
     @ (if \<not> global_seq_feature cfg
        then (if musical_key s \<noteq> c_key_of_C x
              then put_seqspec (c_musickey x) 1 [] @ [musical_key s] else [])
           @ (if musical_scale s \<noteq> c_scales_off x
              then put_seqspec (c_musicscale x) 1 [] @ [musical_scale s] else [])
           @ (if seq_valid x (background_sequence s)
              then put_seqspec (c_backsequence x) 4 []
                     @ add_long (word_of_int (background_sequence s)) [] else [])
        else [])
     @ put_seqspec (c_transpose x) 1 [] @ [of_bool (transposable s)]
     @ (if color s \<noteq> c_seq_color_none
        then put_seqspec (c_seq_color x) 1 [] @ [word_of_int (color s)] else [])
     @ (if SEQ66_SEQUENCE_EDIT_MODE x \<and> m_seq_edit_mode s \<noteq> editmode_note
        then put_seqspec (c_seq_edit_mode x) 1 [] @ [edit_mode_byte s] else [])
     @ (if loop_count_max s > 0
        then put_seqspec (c_seq_loopcount x) 2 [] @ add_short (word_of_int (loop_count_max s)) []
        else [])
   \<and> (musical_key s = c_key_of_C x \<and> musical_scale s = c_scales_off x
        \<and> \<not> seq_valid x (background_sequence s) \<and> color s = c_seq_color_none
        \<and> (SEQ66_SEQUENCE_EDIT_MODE x \<longrightarrow> m_seq_edit_mode s = editmode_note)
        \<and> loop_count_max s \<le> 0 \<longrightarrow>
      fill_proprietary x cfg s bytes =
        bytes
        @ put_seqspec (c_midibus x) 1 [] @ [seq_midi_bus s]
        @ put_seqspec (c_timesig x) 2 []
            @ [word_of_int (get_beats_per_bar s), word_of_int (get_beat_width s)]
        @ put_seqspec (c_midichannel x) 1 [] @ [seq_midi_channel s]
        @ put_seqspec (c_transpose x) 1 [] @ [of_bool (transposable s)])
   \<and> (musical_key s = c_key_of_C x \<and> musical_scale s = c_scales_off x
        \<and> \<not> seq_valid x (background_sequence s) \<and> color s = c_seq_color_none
        \<and> SEQ66_SEQUENCE_EDIT_MODE x \<and> m_seq_edit_mode s \<noteq> editmode_note
        \<and> loop_count_max s \<le> 0 \<longrightarrow>
      fill_proprietary x cfg s bytes =
        bytes
        @ put_seqspec (c_midibus x) 1 [] @ [seq_midi_bus s]
        @ put_seqspec (c_timesig x) 2 []
            @ [word_of_int (get_beats_per_bar s), word_of_int (get_beat_width s)]
        @ put_seqspec (c_midichannel x) 1 [] @ [seq_midi_channel s]
        @ put_seqspec (c_transpose x) 1 [] @ [of_bool (transposable s)]
        @ put_seqspec (c_seq_edit_mode x) 1 [] @ [edit_mode_byte s])"
  by (simp add: fill_proprietary_bytes)

text \<open>
  An instance: a pattern with buss 0, channel 0, time signature 4/4, key C, scale off,
  no background sequence, no color and loop count 0 still gets four blocks, 37 bytes.
\<close>

theorem fill_proprietary_blocks_counterexample:
  "seq_midi_bus pattern_example = 0 \<and> seq_midi_channel pattern_example = 0
   \<and> get_beats_per_bar pattern_example = 4 \<and> get_beat_width pattern_example = 4
   \<and> musical_key pattern_example = c_key_of_C extern_example
   \<and> musical_scale pattern_example = c_scales_off extern_example
   \<and> \<not> seq_valid extern_example (background_sequence pattern_example)
   \<and> color pattern_example = c_seq_color_none
   \<and> loop_count_max pattern_example = 0
   \<and> fill_proprietary extern_example settings_example pattern_example [] =
       put_seqspec (c_midibus extern_example) 1 [] @ [0]
       @ put_seqspec (c_timesig extern_example) 2 [] @ [4, 4]
       @ put_seqspec (c_midichannel extern_example) 1 [] @ [0]
       @ put_seqspec (c_transpose extern_example) 1 [] @ [1]
   \<and> fill_proprietary extern_example settings_example pattern_example [] =
       [0, 0xFF, 0x7F, 5, 0x24, 0x24, 0, 0x01, 0,
        0, 0xFF, 0x7F, 6, 0x24, 0x24, 0, 0x06, 4, 4,
        0, 0xFF, 0x7F, 5, 0x24, 0x24, 0, 0x02, 0,
        0, 0xFF, 0x7F, 5, 0x24, 0x24, 0, 0x14, 1]"
  by code_simp

theorem fill_proprietary_blocks_witness:
  "musical_key pattern_example = c_key_of_C extern_example
   \<and> musical_scale pattern_example = c_scales_off extern_example
   \<and> \<not> seq_valid extern_example (background_sequence pattern_example)
   \<and> color pattern_example = c_seq_color_none
   \<and> \<not> SEQ66_SEQUENCE_EDIT_MODE extern_example
   \<and> m_seq_edit_mode pattern_example = editmode_note
   \<and> loop_count_max pattern_example \<le> 0
   \<and> fill_proprietary extern_example settings_example pattern_example [9] =
        [9] @ put_seqspec (c_midibus extern_example) 1 [] @ [seq_midi_bus pattern_example]
        @ put_seqspec (c_timesig extern_example) 2 []
            @ [word_of_int (get_beats_per_bar pattern_example),
               word_of_int (get_beat_width pattern_example)]
        @ put_seqspec (c_midichannel extern_example) 1 [] @ [seq_midi_channel pattern_example]
        @ put_seqspec (c_transpose extern_example) 1 [] @ [of_bool (transposable pattern_example)]
   \<and> SEQ66_SEQUENCE_EDIT_MODE extern_edit_mode
   \<and> m_seq_edit_mode pattern_drum \<noteq> editmode_note
   \<and> musical_key pattern_drum = c_key_of_C extern_edit_mode
   \<and> musical_scale pattern_drum = c_scales_off extern_edit_mode
   \<and> \<not> seq_valid extern_edit_mode (background_sequence pattern_drum)
   \<and> color pattern_drum = c_seq_color_none
   \<and> loop_count_max pattern_drum \<le> 0
   \<and> fill_proprietary extern_edit_mode settings_example pattern_drum [] =
        [] @ put_seqspec (c_midibus extern_edit_mode) 1 [] @ [seq_midi_bus pattern_drum]
        @ put_seqspec (c_timesig extern_edit_mode) 2 []
            @ [word_of_int (get_beats_per_bar pattern_drum),
               word_of_int (get_beat_width pattern_drum)]
        @ put_seqspec (c_midichannel extern_edit_mode) 1 [] @ [seq_midi_channel pattern_drum]
        @ put_seqspec (c_transpose extern_edit_mode) 1 [] @ [of_bool (transposable pattern_drum)]
        @ put_seqspec (c_seq_edit_mode extern_edit_mode) 1 [] @ [edit_mode_byte pattern_drum]
   \<and> fill_proprietary extern_edit_mode settings_example pattern_drum [] =
        [0, 0xFF, 0x7F, 5, 0x24, 0x24, 0, 0x01, 0,
         0, 0xFF, 0x7F, 6, 0x24, 0x24, 0, 0x06, 4, 4,
         0, 0xFF, 0x7F, 5, 0x24, 0x24, 0, 0x02, 0,
         0, 0xFF, 0x7F, 5, 0x24, 0x24, 0, 0x14, 1,
         0, 0xFF, 0x7F, 5, 0x24, 0x24, 0, 0x1C, 1]
   \<and> fill_proprietary extern_example settings_example
         (pattern_example\<lparr>m_musical_key := 5, m_seq_color := 3\<rparr>) [] =
        [0, 0xFF, 0x7F, 5, 0x24, 0x24, 0, 0x01, 0,
         0, 0xFF, 0x7F, 6, 0x24, 0x24, 0, 0x06, 4, 4,
         0, 0xFF, 0x7F, 5, 0x24, 0x24, 0, 0x02, 0,
         0, 0xFF, 0x7F, 5, 0x24, 0x24, 0, 0x11, 5,
         0, 0xFF, 0x7F, 5, 0x24, 0x24, 0, 0x14, 1,
         0, 0xFF, 0x7F, 5, 0x24, 0x24, 0, 0x1B, 3]"
proof -
  have h: "musical_key pattern_example = c_key_of_C extern_example
   \<and> musical_scale pattern_example = c_scales_off extern_example
   \<and> \<not> seq_valid extern_example (background_sequence pattern_example)
   \<and> color pattern_example = c_seq_color_none
   \<and> \<not> SEQ66_SEQUENCE_EDIT_MODE extern_example
   \<and> m_seq_edit_mode pattern_example = editmode_note
   \<and> loop_count_max pattern_example \<le> 0"
    by code_simp
  from h fill_proprietary_blocks [of extern_example settings_example pattern_example "[9]"]
  have a: "fill_proprietary extern_example settings_example pattern_example [9] =
        [9] @ put_seqspec (c_midibus extern_example) 1 [] @ [seq_midi_bus pattern_example]
        @ put_seqspec (c_timesig extern_example) 2 []
            @ [word_of_int (get_beats_per_bar pattern_example),
               word_of_int (get_beat_width pattern_example)]
        @ put_seqspec (c_midichannel extern_example) 1 [] @ [seq_midi_channel pattern_example]
        @ put_seqspec (c_transpose extern_example) 1 [] @ [of_bool (transposable pattern_example)]"
    by blast
  have g: "SEQ66_SEQUENCE_EDIT_MODE extern_edit_mode
   \<and> m_seq_edit_mode pattern_drum \<noteq> editmode_note
   \<and> musical_key pattern_drum = c_key_of_C extern_edit_mode
   \<and> musical_scale pattern_drum = c_scales_off extern_edit_mode
   \<and> \<not> seq_valid extern_edit_mode (background_sequence pattern_drum)
   \<and> color pattern_drum = c_seq_color_none
   \<and> loop_count_max pattern_drum \<le> 0"
    by code_simp
  from g fill_proprietary_blocks [of extern_edit_mode settings_example pattern_drum "[]"]
  have d: "fill_proprietary extern_edit_mode settings_example pattern_drum [] =
        [] @ put_seqspec (c_midibus extern_edit_mode) 1 [] @ [seq_midi_bus pattern_drum]
        @ put_seqspec (c_timesig extern_edit_mode) 2 []
            @ [word_of_int (get_beats_per_bar pattern_drum),
               word_of_int (get_beat_width pattern_drum)]
        @ put_seqspec (c_midichannel extern_edit_mode) 1 [] @ [seq_midi_channel pattern_drum]
        @ put_seqspec (c_transpose extern_edit_mode) 1 [] @ [of_bool (transposable pattern_drum)]
        @ put_seqspec (c_seq_edit_mode extern_edit_mode) 1 [] @ [edit_mode_byte pattern_drum]"
    by blast
  have d': "fill_proprietary extern_edit_mode settings_example pattern_drum [] =
        [0, 0xFF, 0x7F, 5, 0x24, 0x24, 0, 0x01, 0,
         0, 0xFF, 0x7F, 6, 0x24, 0x24, 0, 0x06, 4, 4,
         0, 0xFF, 0x7F, 5, 0x24, 0x24, 0, 0x02, 0,
         0, 0xFF, 0x7F, 5, 0x24, 0x24, 0, 0x14, 1,
         0, 0xFF, 0x7F, 5, 0x24, 0x24, 0, 0x1C, 1]"
    by code_simp
  have b: "fill_proprietary extern_example settings_example
         (pattern_example\<lparr>m_musical_key := 5, m_seq_color := 3\<rparr>) [] =
        [0, 0xFF, 0x7F, 5, 0x24, 0x24, 0, 0x01, 0,
         0, 0xFF, 0x7F, 6, 0x24, 0x24, 0, 0x06, 4, 4,
         0, 0xFF, 0x7F, 5, 0x24, 0x24, 0, 0x02, 0,
         0, 0xFF, 0x7F, 5, 0x24, 0x24, 0, 0x11, 5,
         0, 0xFF, 0x7F, 5, 0x24, 0x24, 0, 0x14, 1,
         0, 0xFF, 0x7F, 5, 0x24, 0x24, 0, 0x1B, 3]"
    by code_simp
  from h a g d d' b show ?thesis by blast
qed

section \<open>One event of a replay pass\<close>

lemma is_note_transpose_note [simp]:
  "is_note (transpose_note e tn) = is_note e"
  "is_note_on (transpose_note e tn) = is_note_on e"
  "is_note_off (transpose_note e tn) = is_note_off e"
  by (simp_all add: is_note_def is_note_on_def is_note_off_def transpose_note_def)








end
